theory Spec2Isabelle
  imports Complex_Main "HOL-Library.Word" "HOL-Library.Log_Nat"
begin

chapter \<open>Cross-venue spread loggers: quote providers, round trips, persistence, dedup\<close>

text \<open>
  The development embeds the decision logic of four scripts of the repository:
  \<^item> the chain-agnostic spread logger \<^verbatim>\<open>spread-logger.js\<close> (quote providers,
    \<^verbatim>\<open>calculateRoundTrips\<close>, \<^verbatim>\<open>trackPersistence\<close>, \<^verbatim>\<open>poll\<close>);
  \<^item> the Arbitrum logger \<^verbatim>\<open>research/arb-spread-logger.js\<close> (its own
    \<^verbatim>\<open>trackPersistence\<close>, \<^verbatim>\<open>initStats\<close> and the statistics part of \<^verbatim>\<open>poll\<close>);
  \<^item> the paper-trade logger \<^verbatim>\<open>helpers/logger.js\<close> (\<^verbatim>\<open>shouldLog\<close>,
    \<^verbatim>\<open>updateLastLogged\<close>, \<^verbatim>\<open>logOpportunity\<close>);
  \<^item> the block-polling monitor (\<^verbatim>\<open>pollBlock\<close> and its \<^verbatim>\<open>isChecking\<close> flag).

  Conventions. A JavaScript \<^verbatim>\<open>bigint\<close> is an \<^typ>\<open>int\<close>. A finite JavaScript number
  is modelled by its exact value, a \<^typ>\<open>rat\<close>; the type \<open>jsnum\<close> adds \<^verbatim>\<open>Infinity\<close>,
  \<^verbatim>\<open>-Infinity\<close> and \<^verbatim>\<open>NaN\<close>. The arithmetic of the round-trip figures and of the
  dedup test is binary64 arithmetic: every operation returns the exact result rounded
  to the nearest binary64 number, ties to even (\<open>binary64\<close> below). Negative zero is
  not a value of its own: it compares and prints like zero, and the one place where
  its sign shows, a division by a zero \<^verbatim>\<open>inUSD\<close>, takes that sign as an argument. A
  decimal the code reads from text (a source literal such as \<^verbatim>\<open>0.05\<close>, the string
  \<^verbatim>\<open>data.spread\<close>) is given by the decimal and rounded where it enters the arithmetic.
  The strings \<^verbatim>\<open>spreadPct\<close> and \<^verbatim>\<open>netPct\<close> of a round trip are modelled by the decimal
  they denote: \<^verbatim>\<open>parseFloat\<close> is monotone, and injective on four-decimal strings below
  \<open>10^11\<close> in magnitude, so comparing what such strings parse to, with each other or
  with the literals \<^verbatim>\<open>0.3\<close>, \<^verbatim>\<open>0.5\<close> and \<^verbatim>\<open>1\<close>, is comparing the decimals. The
  running sum \<^verbatim>\<open>totalNetPct\<close> is carried exactly; nothing below depends on its value.
  A thrown exception is a value (\<open>Inl\<close>, or \<open>None\<close> where the code drops the exception
  object). Everything the code obtains from the chain, the clock or the file system is
  a parameter.
\<close>

section \<open>JavaScript numbers\<close>

datatype jsnum = Num rat | PosInf | NegInf | NaN

text \<open>\<^verbatim>\<open>a > b\<close> and \<^verbatim>\<open>a >= b\<close>: every comparison with \<^verbatim>\<open>NaN\<close> is false.\<close>

fun js_gt :: "jsnum \<Rightarrow> jsnum \<Rightarrow> bool" where
  "js_gt NaN b = False"
| "js_gt a NaN = False"
| "js_gt (Num a) (Num b) = (a > b)"
| "js_gt (Num a) PosInf = False"
| "js_gt (Num a) NegInf = True"
| "js_gt PosInf PosInf = False"
| "js_gt PosInf b = True"
| "js_gt NegInf b = False"

fun js_ge :: "jsnum \<Rightarrow> jsnum \<Rightarrow> bool" where
  "js_ge NaN b = False"
| "js_ge a NaN = False"
| "js_ge (Num a) (Num b) = (a \<ge> b)"
| "js_ge (Num a) PosInf = False"
| "js_ge (Num a) NegInf = True"
| "js_ge PosInf b = True"
| "js_ge NegInf NegInf = True"
| "js_ge NegInf b = False"

text \<open>\<^verbatim>\<open>Math.max(a, b)\<close>: \<^verbatim>\<open>NaN\<close> if either argument is \<^verbatim>\<open>NaN\<close>.\<close>

fun js_max :: "jsnum \<Rightarrow> jsnum \<Rightarrow> jsnum" where
  "js_max NaN b = NaN"
| "js_max a NaN = NaN"
| "js_max (Num a) (Num b) = Num (max a b)"
| "js_max PosInf b = PosInf"
| "js_max a PosInf = PosInf"
| "js_max NegInf b = b"
| "js_max a NegInf = a"

text \<open>\<open>a + b\<close> without rounding, for the running sum \<^verbatim>\<open>totalNetPct += net\<close>.\<close>

fun js_add :: "jsnum \<Rightarrow> jsnum \<Rightarrow> jsnum" where
  "js_add NaN b = NaN"
| "js_add a NaN = NaN"
| "js_add (Num a) (Num b) = Num (a + b)"
| "js_add PosInf NegInf = NaN"
| "js_add NegInf PosInf = NaN"
| "js_add PosInf b = PosInf"
| "js_add a PosInf = PosInf"
| "js_add NegInf b = NegInf"
| "js_add a NegInf = NegInf"

subsection \<open>Binary64 arithmetic\<close>

text \<open>
  \<open>floorlog2 x\<close>, for a positive \<open>x\<close>, is the exponent \<open>e\<close> with \<open>2^e \<le> x < 2^(e+1)\<close>,
  found from the bit lengths of numerator and denominator.
\<close>

definition floorlog2 :: "rat \<Rightarrow> int" where
  "floorlog2 x =
     (case quotient_of x of (p, q) \<Rightarrow>
        (let e = bitlen p - bitlen q in if 2 powi e \<le> x then e else e - 1))"

text \<open>The integer nearest to \<open>y\<close>, the even one of two that are equally near.\<close>

definition roundHalfEven :: "rat \<Rightarrow> int" where
  "roundHalfEven y =
     (let n = \<lfloor>y\<rfloor>; d = y - of_int n in
      if d < 1 / 2 then n else if 1 / 2 < d then n + 1 else if even n then n else n + 1)"

text \<open>
  Rounding to binary64 (IEEE 754, round to nearest, ties to even). A binary64 number
  with exponent \<open>e\<close> is a multiple of \<open>2^(e - 52)\<close> with a 53-bit multiplier; below
  \<open>2^(-1022)\<close> the spacing stays \<open>2^(-1074)\<close> (subnormal numbers), and a result that
  would reach \<open>2^1024\<close> is an infinity.
\<close>

definition binary64 :: "rat \<Rightarrow> jsnum" where
  "binary64 x =
     (if x = 0 then Num 0
      else
        (let e = max (floorlog2 \<bar>x\<bar>) (- 1022);
             u = 2 powi (e - 52);
             m = roundHalfEven (x / u)
         in if 1024 \<le> e \<or> (e = 1023 \<and> \<bar>m\<bar> = 2 ^ 53)
            then (if 0 < x then PosInf else NegInf)
            else Num (of_int m * u)))"

text \<open>\<^verbatim>\<open>a - b\<close>\<close>

fun js_sub64 :: "jsnum \<Rightarrow> jsnum \<Rightarrow> jsnum" where
  "js_sub64 NaN b = NaN"
| "js_sub64 a NaN = NaN"
| "js_sub64 (Num a) (Num b) = binary64 (a - b)"
| "js_sub64 a (Num b) = a"
| "js_sub64 (Num a) b = (if b = PosInf then NegInf else PosInf)"
| "js_sub64 a b = (if a = b then NaN else a)"

text \<open>\<^verbatim>\<open>a * b\<close>\<close>

fun js_mul64 :: "jsnum \<Rightarrow> jsnum \<Rightarrow> jsnum" where
  "js_mul64 NaN b = NaN"
| "js_mul64 a NaN = NaN"
| "js_mul64 (Num a) (Num b) = binary64 (a * b)"
| "js_mul64 (Num a) b =
     (if a = 0 then NaN else if (0 < a) = (b = PosInf) then PosInf else NegInf)"
| "js_mul64 a (Num b) =
     (if b = 0 then NaN else if (0 < b) = (a = PosInf) then PosInf else NegInf)"
| "js_mul64 a b = (if a = b then PosInf else NegInf)"

text \<open>
  \<^verbatim>\<open>a / b\<close>; \<open>negz\<close> says that a zero \<open>b\<close> is the negative zero. A non-zero number
  divided by a zero is an infinity with the product of the signs, \<^verbatim>\<open>0 / 0\<close> and
  \<^verbatim>\<open>Infinity / Infinity\<close> are \<^verbatim>\<open>NaN\<close>.
\<close>

fun js_div64 :: "jsnum \<Rightarrow> jsnum \<Rightarrow> bool \<Rightarrow> jsnum" where
  "js_div64 NaN b negz = NaN"
| "js_div64 a NaN negz = NaN"
| "js_div64 (Num a) (Num b) negz =
     (if b \<noteq> 0 then binary64 (a / b)
      else if a = 0 then NaN
      else if (0 < a) \<noteq> negz then PosInf else NegInf)"
| "js_div64 (Num a) b negz = Num 0"
| "js_div64 a (Num b) negz =
     (if (a = PosInf) = (0 < b \<or> (b = 0 \<and> \<not> negz)) then PosInf else NegInf)"
| "js_div64 a b negz = NaN"

text \<open>\<^verbatim>\<open>Math.abs(a)\<close>\<close>

fun js_abs :: "jsnum \<Rightarrow> jsnum" where
  "js_abs (Num a) = Num \<bar>a\<bar>"
| "js_abs NaN = NaN"
| "js_abs a = PosInf"

subsection \<open>Printing\<close>

text \<open>
  \<^verbatim>\<open>x.toFixed(f)\<close> for a finite \<open>x\<close> below \<open>10^21\<close> in magnitude prints \<open>n / 10^f\<close> for the
  integer \<open>n\<close> nearest to \<open>x * 10^f\<close>, the larger one on a tie, after moving the sign of a
  negative \<open>x\<close> in front; \<open>x\<close> is the exact value of the binary64 number, so a decimal
  tie of the quantity \<open>x\<close> was computed from is a tie here only if \<open>x\<close> represents it
  exactly. \<open>toFixedScaled x f\<close> is that signed \<open>n\<close>.
\<close>

definition toFixedScaled :: "rat \<Rightarrow> nat \<Rightarrow> int" where
  "toFixedScaled x f =
     (if x < 0 then - \<lfloor>(- x) * 10 ^ f + 1 / 2\<rfloor> else \<lfloor>x * 10 ^ f + 1 / 2\<rfloor>)"

text \<open>
  \<^verbatim>\<open>x.toFixed(4)\<close>, the string a round trip stores as \<^verbatim>\<open>spreadPct\<close> or \<^verbatim>\<open>netPct\<close>,
  by the decimal it denotes. A non-finite \<open>x\<close> prints as its name, which parses back
  to itself; from \<open>10^21\<close> on \<^verbatim>\<open>toFixed\<close> prints the shortest form that parses back to
  \<open>x\<close>.
\<close>

fun toFixed4 :: "jsnum \<Rightarrow> jsnum" where
  "toFixed4 (Num x) =
     (if \<bar>x\<bar> \<ge> 10 ^ 21 then Num x else Num (of_int (toFixedScaled x 4) / 10 ^ 4))"
| "toFixed4 x = x"

section \<open>Quote providers (spread-logger.js)\<close>

subsection \<open>Liquidity Book: \<^verbatim>\<open>quoteLB\<close>\<close>

definition MAX_UINT128 :: int where
  "MAX_UINT128 = push_bit 128 1 - 1"

text \<open>
  \<^verbatim>\<open>const safeAmountIn = amountIn > MAX_UINT128 ? MAX_UINT128 : amountIn\<close>
\<close>

definition safeAmountIn :: "int \<Rightarrow> int" where
  "safeAmountIn amountIn = (if amountIn > MAX_UINT128 then MAX_UINT128 else amountIn)"

text \<open>
  The quoter's answer to \<^verbatim>\<open>findBestPathFromAmountIn(route, safeAmountIn)\<close> is the
  parameter \<open>findBestPath\<close>: \<open>Inl e\<close> when the call throws, \<open>Inr amounts\<close> for the
  returned \<^verbatim>\<open>amounts\<close> array. \<open>quoteLB\<close> returns the amount it sent to the quoter and
  its own result; \<open>Inr None\<close> is \<^verbatim>\<open>undefined\<close>, the last element of an empty array.
\<close>

definition quoteLB :: "(int \<Rightarrow> 'e + int list) \<Rightarrow> int \<Rightarrow> int \<times> ('e + int option)" where
  "quoteLB findBestPath amountIn =
     (let sent = safeAmountIn amountIn in
      (sent,
       case findBestPath sent of
         Inl e \<Rightarrow> Inl e
       | Inr amounts \<Rightarrow> Inr (if amounts = [] then None else Some (last amounts))))"

subsection \<open>Algebra: \<^verbatim>\<open>quoteAlgebra\<close> and the cached ABI version\<close>

text \<open>
  \<^verbatim>\<open>let algebraAbiVersion = null\<close> is one process-wide variable: \<open>None\<close> is
  \<^verbatim>\<open>null\<close>. \<open>staticCall v\<close> is the outcome of
  \<^verbatim>\<open>quoteExactInputSingle.staticCall\<close> through the ABI of version \<open>v\<close> for the
  quoter, tokens and amount of this call, already projected to \<^verbatim>\<open>r[0]\<close>. The model
  returns the function's result, the new value of \<^verbatim>\<open>algebraAbiVersion\<close> and the
  list of versions it called, in order. \<open>Inr None\<close> is the \<^verbatim>\<open>undefined\<close> of falling
  off the end of the function.
\<close>

datatype abiVersion = V1 | V2

text \<open>
  Labels for the exceptions a quote can raise, after the failure taxonomy of the
  specification. The code never inspects the exception it catches, so
  \<open>quoteAlgebra\<close> is polymorphic in their type; the labels serve the stub venues.
\<close>

datatype QuoteError = NoRoute | SchemaMismatch | RevertedCall | Unreachable

definition quoteAlgebraV2 ::
  "(abiVersion \<Rightarrow> 'e + int) \<Rightarrow> abiVersion option \<Rightarrow> abiVersion list \<Rightarrow>
     ('e + int option) \<times> abiVersion option \<times> abiVersion list" where
  "quoteAlgebraV2 staticCall ver tried =
     (if ver = Some V2 \<or> ver = None then
        (case staticCall V2 of
           Inr r \<Rightarrow> (Inr (Some r), (if ver = None then Some V2 else ver), tried @ [V2])
         | Inl e \<Rightarrow> (Inl e, ver, tried @ [V2]))
      else (Inr None, ver, tried))"

definition quoteAlgebra ::
  "(abiVersion \<Rightarrow> 'e + int) \<Rightarrow> abiVersion option \<Rightarrow>
     ('e + int option) \<times> abiVersion option \<times> abiVersion list" where
  "quoteAlgebra staticCall ver =
     (if ver = Some V1 \<or> ver = None then
        (case staticCall V1 of
           Inr r \<Rightarrow> (Inr (Some r), (if ver = None then Some V1 else ver), [V1])
         | Inl e \<Rightarrow>
             if ver = Some V1 then (Inl e, ver, [V1])
             else quoteAlgebraV2 staticCall ver [V1])
      else quoteAlgebraV2 staticCall ver [])"

text \<open>
  A run of the process: one \<open>staticCall\<close> environment per call of \<^verbatim>\<open>quoteAlgebra\<close>
  (the venue, the arguments and the chain state differ from call to call), the cache
  threaded through. The result lists, per call, the versions it tried.
\<close>

fun quoteAlgebraCalls ::
  "(abiVersion \<Rightarrow> 'e + int) list \<Rightarrow> abiVersion option \<Rightarrow>
     abiVersion list list \<times> abiVersion option" where
  "quoteAlgebraCalls [] ver = ([], ver)"
| "quoteAlgebraCalls (c # cs) ver =
     (case quoteAlgebra c ver of
        (r, ver', tried) \<Rightarrow>
          (case quoteAlgebraCalls cs ver' of (ts, final) \<Rightarrow> (tried # ts, final)))"

text \<open>
  Stub venues: one that reverts for lack of liquidity under the V1 ABI and answers under
  V2, one that only speaks V1, one that only speaks V2.
\<close>

definition noLiquidityV1 :: "abiVersion \<Rightarrow> QuoteError + int" where
  "noLiquidityV1 v = (case v of V1 \<Rightarrow> Inl RevertedCall | V2 \<Rightarrow> Inr 7)"

definition v1OnlyVenue :: "abiVersion \<Rightarrow> QuoteError + int" where
  "v1OnlyVenue v = (case v of V1 \<Rightarrow> Inr 5 | V2 \<Rightarrow> Inl SchemaMismatch)"

definition v2OnlyVenue :: "abiVersion \<Rightarrow> QuoteError + int" where
  "v2OnlyVenue v = (case v of V1 \<Rightarrow> Inl SchemaMismatch | V2 \<Rightarrow> Inr 9)"

section \<open>Round trips (spread-logger.js, \<^verbatim>\<open>calculateRoundTrips\<close>)\<close>

text \<open>
  \<^verbatim>\<open>TOKENS[sym]\<close> holds \<^verbatim>\<open>decimals\<close> and \<^verbatim>\<open>priceUSD\<close>; a token without a price has
  \<open>priceUSD = None\<close>. A venue of a pair names its \<^verbatim>\<open>dex\<close> and, for V3, a \<^verbatim>\<open>fee\<close>.
\<close>

record Token =
  decimals :: nat
  priceUSD :: "rat option"

record Venue =
  dex :: string
  fee :: "nat option"

record TradingPair =
  name :: string
  token0 :: string
  token1 :: string
  venues :: "Venue list"

text \<open>
  One call \<^verbatim>\<open>getQuote(venue, tokenIn, tokenOut, amountIn)\<close>. What the chain answers is
  the parameter \<open>q\<close> of the evaluation: given the calls made so far in this evaluation
  and the call at hand, \<open>Inl msg\<close> when \<^verbatim>\<open>getQuote\<close> throws an error with message
  \<open>msg\<close>, \<open>Inr out\<close> when it returns the amount \<open>out\<close>. (A \<^verbatim>\<open>getQuote\<close> that returns
  \<^verbatim>\<open>undefined\<close> behaves like one that throws in both loops below: the forward entry
  is skipped as falsy, the reverse leg throws in \<^verbatim>\<open>formatUnits\<close>.)
\<close>

record QuoteCall =
  callVenue :: Venue
  tokenIn :: string
  tokenOut :: string
  amountIn :: int

type_synonym QuoteOracle = "QuoteCall list \<Rightarrow> QuoteCall \<Rightarrow> string + int"

text \<open>An entry of \<^verbatim>\<open>forwardQuotes\<close>; \<open>amountOut = None\<close> is \<^verbatim>\<open>amountOut: null\<close>.\<close>

record ForwardQuote =
  venue :: Venue
  amountOut :: "int option"
  errorText :: "string option"

text \<open>
  An element of the returned array. \<open>inUSD\<close>, \<open>outUSD\<close> and \<open>netUSD\<close> are numbers;
  \<open>spreadPct\<close> and \<open>netPct\<close> stand for the strings \<^verbatim>\<open>spreadPct.toFixed(4)\<close> and
  \<^verbatim>\<open>netPct.toFixed(4)\<close> by the decimal they denote.
\<close>

record RoundTrip =
  direction :: string
  notionalUSD :: rat
  inUSD :: jsnum
  outUSD :: jsnum
  netUSD :: jsnum
  spreadPct :: jsnum
  netPct :: jsnum

text \<open>The arrow of \<^verbatim>\<open>direction\<close>, U+2192, as its UTF-8 bytes.\<close>

definition arrow :: string where
  "arrow = [char_of (226 :: nat), char_of (134 :: nat), char_of (146 :: nat)]"

text \<open>
  \<^verbatim>\<open>ethers.parseUnits((notionalUSD / t0.priceUSD).toFixed(Math.min(t0.decimals, 8)), t0.decimals)\<close>
  for the numbers \<open>notional\<close> and \<open>price\<close>. The quotient is a binary64 division. From
  \<open>10^21\<close> on \<^verbatim>\<open>toFixed\<close> prints an exponent and a non-finite quotient prints as its
  name; \<^verbatim>\<open>parseUnits\<close> rejects both: \<open>None\<close> is that exception. (The Arbitrum logger
  computes the same amount from its global notional; its evaluation differs only in
  having no test for unknown tokens and in naming venues by \<^verbatim>\<open>name\<close>.)
\<close>

definition parseAmountIn0 :: "rat \<Rightarrow> rat \<Rightarrow> nat \<Rightarrow> int option" where
  "parseAmountIn0 notional price dec =
     (let f = min dec 8 in
      case js_div64 (Num notional) (Num price) False of
        Num x \<Rightarrow>
          if \<bar>x\<bar> \<ge> 10 ^ 21 then None else Some (toFixedScaled x f * 10 ^ (dec - f))
      | _ \<Rightarrow> None)"

text \<open>
  \<^verbatim>\<open>Number(ethers.formatUnits(amount, decimals)) * priceUSD\<close>: \<^verbatim>\<open>formatUnits\<close> prints
  the decimal \<open>amount / 10^decimals\<close> in full, \<^verbatim>\<open>Number\<close> rounds it to binary64, and the
  product is rounded again.
\<close>

definition usdValue :: "int \<Rightarrow> nat \<Rightarrow> rat \<Rightarrow> jsnum" where
  "usdValue amount dec price = js_mul64 (binary64 (of_int amount / 10 ^ dec)) (Num price)"

text \<open>
  The body of the \<^verbatim>\<open>try\<close> of the reverse leg, after \<^verbatim>\<open>amountBack\<close> has arrived. \<open>gas\<close>
  is the decimal \<^verbatim>\<open>GAS_COST_USD\<close> is configured as (\<^verbatim>\<open>0.10\<close> by default, \<^verbatim>\<open>0.05\<close> in the
  Arbitrum logger). With the positive price the evaluation has checked, a zero \<^verbatim>\<open>inUSD\<close> is
  the negative zero exactly when the input amount is negative.
\<close>

definition roundTrip ::
  "rat \<Rightarrow> rat \<Rightarrow> nat \<Rightarrow> rat \<Rightarrow> int \<Rightarrow> Venue \<Rightarrow> Venue \<Rightarrow> int \<Rightarrow> RoundTrip" where
  "roundTrip gas notional dec price amountIn0 buyVenue sellVenue amountBack =
     (let inU = usdValue amountIn0 dec price;
          outU = usdValue amountBack dec price;
          netU = js_sub64 (js_sub64 outU inU) (binary64 gas);
          spread = js_mul64 (js_div64 (js_sub64 outU inU) inU (amountIn0 < 0)) (Num 100);
          net = js_mul64 (js_div64 netU inU (amountIn0 < 0)) (Num 100)
      in \<lparr>direction = dex buyVenue @ arrow @ dex sellVenue, notionalUSD = notional,
          inUSD = inU, outUSD = outU, netUSD = netU,
          spreadPct = toFixed4 spread, netPct = toFixed4 net\<rparr>)"

text \<open>
  The forward loop: one call per venue, in order; a failed call still pushes an entry,
  with \<^verbatim>\<open>amountOut: null\<close> and the first 60 characters of the message.
\<close>

fun forwardLoop ::
  "QuoteOracle \<Rightarrow> string \<Rightarrow> string \<Rightarrow> int \<Rightarrow> Venue list \<Rightarrow>
     ForwardQuote list \<times> QuoteCall list \<Rightarrow> ForwardQuote list \<times> QuoteCall list" where
  "forwardLoop q t0 t1 a [] acc = acc"
| "forwardLoop q t0 t1 a (v # vs) (fqs, hist) =
     (let c = \<lparr>callVenue = v, tokenIn = t0, tokenOut = t1, amountIn = a\<rparr> in
      forwardLoop q t0 t1 a vs
        (case q hist c of
           Inr out \<Rightarrow>
             (fqs @ [\<lparr>venue = v, amountOut = Some out, errorText = None\<rparr>], hist @ [c])
         | Inl msg \<Rightarrow>
             (fqs @ [\<lparr>venue = v, amountOut = None, errorText = Some (take 60 msg)\<rparr>],
              hist @ [c])))"

text \<open>
  One iteration \<open>(i, j)\<close> of the nested loops. \<^verbatim>\<open>if (!buyQ.amountOut) continue\<close> skips
  a \<^verbatim>\<open>null\<close> output and also the bigint \<^verbatim>\<open>0n\<close>, which is falsy. A reverse quote that
  throws is swallowed by the empty \<^verbatim>\<open>catch\<close>.
\<close>

definition reverseStep ::
  "QuoteOracle \<Rightarrow> (Venue \<Rightarrow> Venue \<Rightarrow> int \<Rightarrow> RoundTrip) \<Rightarrow> string \<Rightarrow> string \<Rightarrow> Venue list \<Rightarrow>
     ForwardQuote list \<Rightarrow> RoundTrip list \<times> QuoteCall list \<Rightarrow> nat \<times> nat \<Rightarrow>
     RoundTrip list \<times> QuoteCall list" where
  "reverseStep q mk t0 t1 vs fqs acc ij =
     (case (acc, ij) of ((rs, hist), (i, j)) \<Rightarrow>
        if i = j then (rs, hist)
        else
          (case amountOut (fqs ! i) of
             None \<Rightarrow> (rs, hist)
           | Some out \<Rightarrow>
               if out = 0 then (rs, hist)
               else
                 (let c = \<lparr>callVenue = vs ! j, tokenIn = t1, tokenOut = t0, amountIn = out\<rparr> in
                  case q hist c of
                    Inl msg \<Rightarrow> (rs, hist @ [c])
                  | Inr back \<Rightarrow> (rs @ [mk (venue (fqs ! i)) (vs ! j) back], hist @ [c]))))"

text \<open>
  \<^verbatim>\<open>for (i = 0; i < forwardQuotes.length; i++) for (j = 0; j < forwardQuotes.length; j++)\<close>:
  the index pairs in row-major order.
\<close>

definition reverseLoop ::
  "QuoteOracle \<Rightarrow> (Venue \<Rightarrow> Venue \<Rightarrow> int \<Rightarrow> RoundTrip) \<Rightarrow> string \<Rightarrow> string \<Rightarrow> Venue list \<Rightarrow>
     ForwardQuote list \<Rightarrow> QuoteCall list \<Rightarrow> RoundTrip list \<times> QuoteCall list" where
  "reverseLoop q mk t0 t1 vs fqs hist =
     foldl (reverseStep q mk t0 t1 vs fqs) ([], hist)
       (List.product [0..<length fqs] [0..<length fqs])"

text \<open>
  What one evaluation did: the returned array (\<open>None\<close> when \<^verbatim>\<open>parseUnits\<close> threw and
  the exception went to the caller), the \<^verbatim>\<open>forwardQuotes\<close> array it built, and the
  quote calls it made, in order.
\<close>

record Evaluation =
  results :: "RoundTrip list option"
  forwardQuotes :: "ForwardQuote list"
  quoteCalls :: "QuoteCall list"

definition calculateRoundTrips ::
  "(string \<rightharpoonup> Token) \<Rightarrow> rat \<Rightarrow> QuoteOracle \<Rightarrow> TradingPair \<Rightarrow> rat \<Rightarrow> Evaluation" where
  "calculateRoundTrips TOKENS gas q pair notional =
     (let early = \<lparr>results = Some [], forwardQuotes = [], quoteCalls = []\<rparr> in
      case TOKENS (token0 pair) of
        None \<Rightarrow> early
      | Some t0 \<Rightarrow>
          (case TOKENS (token1 pair) of
             None \<Rightarrow> early
           | Some t1 \<Rightarrow>
               (case priceUSD t0 of
                  None \<Rightarrow> early
                | Some price \<Rightarrow>
                    if price \<le> 0 then early
                    else
                      (case parseAmountIn0 notional price (decimals t0) of
                         None \<Rightarrow> \<lparr>results = None, forwardQuotes = [], quoteCalls = []\<rparr>
                       | Some amountIn0 \<Rightarrow>
                           (case forwardLoop q (token0 pair) (token1 pair) amountIn0
                                   (venues pair) ([], []) of
                              (fqs, hist) \<Rightarrow>
                                (case reverseLoop q
                                        (roundTrip gas notional (decimals t0) price amountIn0)
                                        (token0 pair) (token1 pair) (venues pair) fqs hist of
                                   (rs, hist') \<Rightarrow>
                                     \<lparr>results = Some rs, forwardQuotes = fqs,
                                      quoteCalls = hist'\<rparr>))))))"

text \<open>
  The round trips the loops are meant to produce, said directly: the ordered pairs
  \<open>(i, j)\<close> of distinct venues whose buy side has a usable forward output, each asked
  for its reverse quote in turn, and one round trip for each reverse quote that
  answered.
\<close>

definition eligible :: "ForwardQuote list \<Rightarrow> nat \<times> nat \<Rightarrow> bool" where
  "eligible fqs ij =
     (fst ij \<noteq> snd ij \<and>
      (case amountOut (fqs ! fst ij) of None \<Rightarrow> False | Some out \<Rightarrow> out \<noteq> 0))"

definition reverseCall ::
  "string \<Rightarrow> string \<Rightarrow> Venue list \<Rightarrow> ForwardQuote list \<Rightarrow> nat \<times> nat \<Rightarrow> QuoteCall" where
  "reverseCall t0 t1 vs fqs ij =
     \<lparr>callVenue = vs ! snd ij, tokenIn = t1, tokenOut = t0,
      amountIn = the (amountOut (fqs ! fst ij))\<rparr>"

fun collectTrips ::
  "QuoteOracle \<Rightarrow> (Venue \<Rightarrow> Venue \<Rightarrow> int \<Rightarrow> RoundTrip) \<Rightarrow> string \<Rightarrow> string \<Rightarrow> Venue list \<Rightarrow>
     ForwardQuote list \<Rightarrow> (nat \<times> nat) list \<Rightarrow> QuoteCall list \<Rightarrow> RoundTrip list" where
  "collectTrips q mk t0 t1 vs fqs [] hist = []"
| "collectTrips q mk t0 t1 vs fqs (ij # rest) hist =
     (case q hist (reverseCall t0 t1 vs fqs ij) of
        Inl msg \<Rightarrow> []
      | Inr back \<Rightarrow> [mk (venue (fqs ! fst ij)) (vs ! snd ij) back])
     @ collectTrips q mk t0 t1 vs fqs rest (hist @ [reverseCall t0 t1 vs fqs ij])"

definition forwardCall :: "string \<Rightarrow> string \<Rightarrow> int \<Rightarrow> Venue \<Rightarrow> QuoteCall" where
  "forwardCall t0 t1 a v = \<lparr>callVenue = v, tokenIn = t0, tokenOut = t1, amountIn = a\<rparr>"

text \<open>The entries the forward loop is meant to push, one per venue, said directly.\<close>

fun forwardEntries ::
  "QuoteOracle \<Rightarrow> string \<Rightarrow> string \<Rightarrow> int \<Rightarrow> Venue list \<Rightarrow> QuoteCall list \<Rightarrow>
     ForwardQuote list" where
  "forwardEntries q t0 t1 a [] hist = []"
| "forwardEntries q t0 t1 a (v # vs) hist =
     (case q hist (forwardCall t0 t1 a v) of
        Inr out \<Rightarrow> \<lparr>venue = v, amountOut = Some out, errorText = None\<rparr>
      | Inl msg \<Rightarrow> \<lparr>venue = v, amountOut = None, errorText = Some (take 60 msg)\<rparr>)
     # forwardEntries q t0 t1 a vs (hist @ [forwardCall t0 t1 a v])"

text \<open>The array an evaluation returned; empty when it threw instead.\<close>

definition returned :: "Evaluation \<Rightarrow> RoundTrip list" where
  "returned ev = (case results ev of None \<Rightarrow> [] | Some rs \<Rightarrow> rs)"

text \<open>
  Stub venues for the evaluator. \<open>reciprocalVenues t0\<close> prices every venue alike and
  without fees, in native units: selling \<open>t0\<close> doubles the amount, selling the other
  asset halves it. \<open>skewedVenues t0 bonus\<close> does the same, except that venue \<open>B\<close> pays
  \<open>bonus\<close> native units more when the other asset is sold to it. \<open>zeroThenFail\<close>
  answers the first call with the amount 0 and throws on every later call.
\<close>

definition reciprocalVenues :: "string \<Rightarrow> QuoteOracle" where
  "reciprocalVenues t0 hist c =
     (if tokenIn c = t0 then Inr (2 * amountIn c) else Inr (amountIn c div 2))"

definition skewedVenues :: "string \<Rightarrow> int \<Rightarrow> QuoteOracle" where
  "skewedVenues t0 bonus hist c =
     (if tokenIn c = t0 then Inr (2 * amountIn c)
      else if dex (callVenue c) = ''B'' then Inr (amountIn c div 2 + bonus)
      else Inr (amountIn c div 2))"

definition zeroThenFail :: QuoteOracle where
  "zeroThenFail hist c = (if hist = [] then Inr 0 else Inl ''execution reverted'')"

definition stubTokens :: "string \<rightharpoonup> Token" where
  "stubTokens =
     [''WETH'' \<mapsto> \<lparr>decimals = 18, priceUSD = Some 2000\<rparr>,
      ''USDC'' \<mapsto> \<lparr>decimals = 6, priceUSD = Some 1\<rparr>]"

definition stubPair :: TradingPair where
  "stubPair =
     \<lparr>name = ''WETH/USDC'', token0 = ''WETH'', token1 = ''USDC'',
      venues = [\<lparr>dex = ''A'', fee = None\<rparr>, \<lparr>dex = ''B'', fee = None\<rparr>]\<rparr>"

section \<open>Persistence tracking (\<^verbatim>\<open>trackPersistence\<close>) and statistics\<close>

text \<open>
  Both loggers keep the globals \<^verbatim>\<open>spikeTracker\<close> and \<^verbatim>\<open>stats\<close>, objects used as
  maps from string keys. The Arbitrum logger's entries have fewer fields, so its
  records come first and the chain-agnostic logger's extend them.
\<close>

record ArbSpikeState =
  startBlock :: nat
  count :: nat
  maxSpread :: jsnum

record SpikeState = ArbSpikeState +
  startTime :: int

record ArbStats =
  checks :: nat
  spikes05 :: nat
  spikes1 :: nat
  bestSpread :: jsnum
  persistent2 :: nat
  totalNetPct :: jsnum

record Stats = ArbStats +
  statPair :: string
  statNotional :: nat
  spikes03 :: nat

text \<open>
  The \<^verbatim>\<open>PERSISTENT\<close> line written to the console is the persistence event; the record
  holds the values the line is formatted from (\<^verbatim>\<open>max\<close> is printed with three
  decimals). \<open>wallDuration\<close> is \<^verbatim>\<open>durationSec\<close>.
\<close>

record PersistenceEvent =
  evPair :: string
  evDirection :: string
  duration :: nat
  evMaxSpread :: jsnum

record TimedPersistenceEvent = PersistenceEvent +
  evNotional :: nat
  wallDuration :: int

record Logger =
  spikeTracker :: "string \<rightharpoonup> SpikeState"
  stats :: "string \<rightharpoonup> Stats"
  console :: "TimedPersistenceEvent list"

record ArbLogger =
  arbSpikeTracker :: "string \<rightharpoonup> ArbSpikeState"
  arbStats :: "string \<rightharpoonup> ArbStats"
  arbConsole :: "PersistenceEvent list"
  arbOutFile :: "(nat \<times> string \<times> RoundTrip) list"

text \<open>
  A notional in a template literal: the decimal digits of a non-negative integer
  (notionals are such integers below \<open>10^21\<close>, where JavaScript prints all digits).
\<close>

fun decimalDigits :: "nat \<Rightarrow> string" where
  "decimalDigits n =
     (if n < 10 then [char_of (48 + n)]
      else decimalDigits (n div 10) @ [char_of (48 + n mod 10)])"

declare decimalDigits.simps [simp del]

definition spikeKey :: "string \<Rightarrow> string \<Rightarrow> nat \<Rightarrow> string" where
  "spikeKey pairName dir n = pairName @ ''_'' @ dir @ ''_'' @ decimalDigits n"

definition statsKey :: "string \<Rightarrow> nat \<Rightarrow> string" where
  "statsKey pairName n = pairName @ ''_'' @ decimalDigits n"

definition initStats :: "string \<Rightarrow> nat \<Rightarrow> (string \<rightharpoonup> Stats) \<Rightarrow> (string \<rightharpoonup> Stats)" where
  "initStats pairName n st =
     st(statsKey pairName n \<mapsto>
        \<lparr>checks = 0, spikes05 = 0, spikes1 = 0, bestSpread = Num (- 999), persistent2 = 0,
         totalNetPct = Num 0, statPair = pairName, statNotional = n, spikes03 = 0\<rparr>)"

text \<open>
  \<^verbatim>\<open>trackPersistence(pairName, direction, spreadPct, block, notional)\<close> of the
  chain-agnostic logger. \<open>spread\<close> is \<^verbatim>\<open>parseFloat(spreadPct)\<close>, \<open>now\<close> the reading of
  \<^verbatim>\<open>Date.now()\<close> (one per call, in either branch).
\<close>

definition trackPersistence ::
  "string \<Rightarrow> string \<Rightarrow> jsnum \<Rightarrow> nat \<Rightarrow> nat \<Rightarrow> int \<Rightarrow> Logger \<Rightarrow> Logger" where
  "trackPersistence pairName dir spread blk n now s =
     (let key = spikeKey pairName dir n in
      if js_ge spread (Num (3 / 10)) then
        (case spikeTracker s key of
           None \<Rightarrow>
             s\<lparr>spikeTracker := (spikeTracker s)(key \<mapsto>
                 \<lparr>startBlock = blk, count = 1, maxSpread = spread, startTime = now\<rparr>)\<rparr>
         | Some e \<Rightarrow>
             s\<lparr>spikeTracker := (spikeTracker s)(key \<mapsto>
                 e\<lparr>count := count e + 1, maxSpread := js_max (maxSpread e) spread\<rparr>)\<rparr>)
      else
        (let s' =
           (case spikeTracker s key of
              None \<Rightarrow> s
            | Some e \<Rightarrow>
                if count e \<ge> 1 then
                  (if count e \<ge> 2 then
                     s\<lparr>console := console s @
                         [\<lparr>evPair = pairName, evDirection = dir, duration = count e,
                           evMaxSpread = maxSpread e, evNotional = n,
                           wallDuration = toFixedScaled (of_int (now - startTime e) / 1000) 0\<rparr>],
                       stats :=
                         (case stats s (statsKey pairName n) of
                            None \<Rightarrow> stats s
                          | Some st \<Rightarrow>
                              (stats s)(statsKey pairName n \<mapsto>
                                 st\<lparr>persistent2 := persistent2 st + 1\<rparr>))\<rparr>
                   else s)
                else s)
         in s'\<lparr>spikeTracker := (spikeTracker s')(key := None)\<rparr>))"

text \<open>A stream of calls, each with its own arguments and clock reading.\<close>

record Observation =
  obsPair :: string
  obsDirection :: string
  obsSpread :: jsnum
  obsBlock :: nat
  obsNotional :: nat
  obsNow :: int

definition observe :: "Logger \<Rightarrow> Observation \<Rightarrow> Logger" where
  "observe s ob =
     trackPersistence (obsPair ob) (obsDirection ob) (obsSpread ob) (obsBlock ob)
       (obsNotional ob) (obsNow ob) s"

definition observeAll :: "Observation list \<Rightarrow> Logger \<Rightarrow> Logger" where
  "observeAll obs s = foldl observe s obs"

definition obsKey :: "Observation \<Rightarrow> string" where
  "obsKey ob = spikeKey (obsPair ob) (obsDirection ob) (obsNotional ob)"

definition evKey :: "TimedPersistenceEvent \<Rightarrow> string" where
  "evKey ev = spikeKey (evPair ev) (evDirection ev) (evNotional ev)"

definition aboveThreshold :: "Observation \<Rightarrow> bool" where
  "aboveThreshold ob = js_ge (obsSpread ob) (Num (3 / 10))"

definition emptyLogger :: Logger where
  "emptyLogger = \<lparr>spikeTracker = Map.empty, stats = Map.empty, console = []\<rparr>"

text \<open>An observation of the pair WETH/USDC, direction A to B, notional 100.\<close>

definition sample :: "rat \<Rightarrow> nat \<Rightarrow> Observation" where
  "sample x blk =
     \<lparr>obsPair = ''WETH/USDC'', obsDirection = ''AB'', obsSpread = Num x, obsBlock = blk,
      obsNotional = 100, obsNow = 1000 * int blk\<rparr>"

subsection \<open>The Arbitrum logger\<close>

definition arbInitStats :: "string \<Rightarrow> (string \<rightharpoonup> ArbStats) \<Rightarrow> (string \<rightharpoonup> ArbStats)" where
  "arbInitStats pairName st =
     st(pairName \<mapsto>
        \<lparr>checks = 0, spikes05 = 0, spikes1 = 0, bestSpread = Num 0, persistent2 = 0,
         totalNetPct = Num 0\<rparr>)"

text \<open>
  Its \<^verbatim>\<open>trackPersistence(pairName, direction, spreadPct, block)\<close>: threshold 0.5, key
  without the notional, no clock, and \<^verbatim>\<open>initStats\<close> on a missing statistics entry.
\<close>

definition arbTrackPersistence ::
  "string \<Rightarrow> string \<Rightarrow> jsnum \<Rightarrow> nat \<Rightarrow> ArbLogger \<Rightarrow> ArbLogger" where
  "arbTrackPersistence pairName dir spread blk s =
     (let key = pairName @ ''_'' @ dir in
      if js_ge spread (Num (1 / 2)) then
        (case arbSpikeTracker s key of
           None \<Rightarrow>
             s\<lparr>arbSpikeTracker := (arbSpikeTracker s)(key \<mapsto>
                 \<lparr>startBlock = blk, count = 1, maxSpread = spread\<rparr>)\<rparr>
         | Some e \<Rightarrow>
             s\<lparr>arbSpikeTracker := (arbSpikeTracker s)(key \<mapsto>
                 e\<lparr>count := count e + 1, maxSpread := js_max (maxSpread e) spread\<rparr>)\<rparr>)
      else
        (let s' =
           (case arbSpikeTracker s key of
              None \<Rightarrow> s
            | Some e \<Rightarrow>
                if count e \<ge> 1 then
                  (if count e \<ge> 2 then
                     (let st = (case arbStats s pairName of
                                  None \<Rightarrow> arbInitStats pairName (arbStats s)
                                | Some x \<Rightarrow> arbStats s)
                      in s\<lparr>arbConsole := arbConsole s @
                             [\<lparr>evPair = pairName, evDirection = dir, duration = count e,
                               evMaxSpread = maxSpread e\<rparr>],
                           arbStats :=
                             (case st pairName of
                                None \<Rightarrow> st
                              | Some x \<Rightarrow>
                                  st(pairName \<mapsto> x\<lparr>persistent2 := persistent2 x + 1\<rparr>))\<rparr>)
                   else s)
                else s)
         in s'\<lparr>arbSpikeTracker := (arbSpikeTracker s')(key := None)\<rparr>))"

text \<open>A stream of its calls: pair name, direction, spread, block.\<close>

definition arbObserveAll ::
  "(string \<times> string \<times> jsnum \<times> nat) list \<Rightarrow> ArbLogger \<Rightarrow> ArbLogger" where
  "arbObserveAll obs s =
     foldl (\<lambda>s' ob. case ob of (pairName, dir, spread, blk) \<Rightarrow>
              arbTrackPersistence pairName dir spread blk s') s obs"

text \<open>
  The body of \<^verbatim>\<open>for (const trip of trips)\<close> in its \<^verbatim>\<open>poll\<close>, for the pair \<open>nm\<close> at
  block \<open>blk\<close>. The trips are what \<^verbatim>\<open>calculateRoundTrips(pair)\<close> returned (this
  logger's trips carry \<^verbatim>\<open>amountIn\<close> and \<^verbatim>\<open>amountOut\<close> where the record has
  \<open>notionalUSD\<close>; the loop reads neither); each comes with whether
  \<^verbatim>\<open>appendFileSync\<close> succeeded. An exception (\<^verbatim>\<open>stats[pair.name]\<close> undefined, a
  failed append) leaves the loop for the pair-level \<^verbatim>\<open>catch\<close>, keeping what was
  written so far.
\<close>

definition arbUpdateStats :: "ArbStats \<Rightarrow> RoundTrip \<Rightarrow> ArbStats" where
  "arbUpdateStats st trip =
     (let raw = spreadPct trip;
          st1 = st\<lparr>checks := checks st + 1,
                   totalNetPct := js_add (totalNetPct st) (netPct trip)\<rparr>;
          st2 = (if js_gt raw (bestSpread st1) then st1\<lparr>bestSpread := raw\<rparr> else st1);
          st3 = (if js_ge raw (Num (1 / 2)) then st2\<lparr>spikes05 := spikes05 st2 + 1\<rparr> else st2)
      in if js_ge raw (Num 1) then st3\<lparr>spikes1 := spikes1 st3 + 1\<rparr> else st3)"

fun arbPollTrips :: "string \<Rightarrow> nat \<Rightarrow> (RoundTrip \<times> bool) list \<Rightarrow> ArbLogger \<Rightarrow> ArbLogger" where
  "arbPollTrips nm blk [] s = s"
| "arbPollTrips nm blk ((trip, appendOk) # rest) s =
     (case arbStats s nm of
        None \<Rightarrow> s
      | Some st \<Rightarrow>
          (let s1 = arbTrackPersistence nm (direction trip) (spreadPct trip) blk
                      (s\<lparr>arbStats := (arbStats s)(nm \<mapsto> arbUpdateStats st trip)\<rparr>)
           in if appendOk
              then arbPollTrips nm blk rest (s1\<lparr>arbOutFile := arbOutFile s1 @ [(blk, nm, trip)]\<rparr>)
              else s1))"

text \<open>
  One cycle visits the pairs in order; a run is a sequence of cycles, each with its
  block number. A pair whose \<^verbatim>\<open>calculateRoundTrips\<close> threw has no trips; a cycle whose
  \<^verbatim>\<open>getBlockNumber\<close> threw has no pairs. \<open>arbStart\<close> is the state \<^verbatim>\<open>main\<close> polls from:
  empty globals, then \<^verbatim>\<open>initStats(p.name)\<close> for every active pair.
\<close>

definition arbPollCycle ::
  "ArbLogger \<Rightarrow> nat \<times> (string \<times> (RoundTrip \<times> bool) list) list \<Rightarrow> ArbLogger" where
  "arbPollCycle s cyc =
     foldl (\<lambda>s' p. arbPollTrips (fst p) (fst cyc) (snd p) s') s (snd cyc)"

definition arbRun ::
  "(nat \<times> (string \<times> (RoundTrip \<times> bool) list) list) list \<Rightarrow> ArbLogger \<Rightarrow> ArbLogger" where
  "arbRun cycles s = foldl arbPollCycle s cycles"

definition arbStart :: "string list \<Rightarrow> ArbLogger" where
  "arbStart names =
     \<lparr>arbSpikeTracker = Map.empty,
      arbStats = foldl (\<lambda>st nm. arbInitStats nm st) Map.empty names,
      arbConsole = [], arbOutFile = []\<rparr>"

text \<open>The spreads a cycle, and a run, show the loop for the pair \<open>p\<close>.\<close>

definition cycleSpreads :: "string \<Rightarrow> (string \<times> (RoundTrip \<times> bool) list) list \<Rightarrow> jsnum list" where
  "cycleSpreads p prs =
     concat (map (\<lambda>pr. if fst pr = p then map (\<lambda>t. spreadPct (fst t)) (snd pr) else []) prs)"

definition spreadsOf ::
  "string \<Rightarrow> (nat \<times> (string \<times> (RoundTrip \<times> bool) list) list) list \<Rightarrow> jsnum list" where
  "spreadsOf p cycles = concat (map (\<lambda>cyc. cycleSpreads p (snd cyc)) cycles)"

text \<open>A trip with a given spread, and a losing run of two cycles for one pair.\<close>

definition tripWith :: "rat \<Rightarrow> RoundTrip" where
  "tripWith x =
     \<lparr>direction = ''Uniswap'' @ arrow @ ''Camelot'', notionalUSD = 1000, inUSD = Num 1000,
      outUSD = Num (1000 + 10 * x), netUSD = Num (10 * x - 1 / 20), spreadPct = Num x,
      netPct = Num (x - 1 / 200)\<rparr>"

definition losingRun :: "(nat \<times> (string \<times> (RoundTrip \<times> bool) list) list) list" where
  "losingRun =
     [(100, [(''WETH/ARB'', [(tripWith (- (3 / 10)), True), (tripWith (- (1 / 4)), True)])]),
      (101, [(''WETH/ARB'', [(tripWith (- (1 / 5)), True)])])]"

section \<open>Alert deduplication (helpers/logger.js)\<close>

text \<open>
  The object passed to \<^verbatim>\<open>logOpportunity\<close>. The fields the logger reads are
  \<^verbatim>\<open>pair\<close>, \<^verbatim>\<open>buyDex\<close> and, for the spread, \<^verbatim>\<open>spread\<close>, \<^verbatim>\<open>netProfit\<close> and
  \<^verbatim>\<open>price\<close>; the last three are numeric strings when present (the monitor passes
  \<^verbatim>\<open>spread: priceDifference.toFixed(4)\<close> and neither of the other two), modelled by
  the decimal they denote. An absent string field and an empty one are both falsy.
\<close>

record Opportunity =
  buyDex :: string
  sellDex :: string
  oppPair :: string
  oppSpread :: "rat option"
  netProfit :: "rat option"
  oppPrice :: "rat option"

text \<open>An entry of \<^verbatim>\<open>lastLogged\<close>: \<^verbatim>\<open>{ spread, direction, ts }\<close>; \<open>None\<close> is \<^verbatim>\<open>null\<close>.\<close>

record LastLogged =
  lastSpread :: jsnum
  lastDirection :: "string option"
  ts :: int

text \<open>The literal \<^verbatim>\<open>0.03\<close>, as the binary64 number it is read as.\<close>

definition DEDUP_SPREAD_DELTA :: jsnum where
  "DEDUP_SPREAD_DELTA = binary64 (3 / 100)"

definition DEDUP_COOLDOWN_MS :: int where
  "DEDUP_COOLDOWN_MS = 10000"

definition MAX_FILE_SIZE_MB :: nat where
  "MAX_FILE_SIZE_MB = 10"

text \<open>
  \<^verbatim>\<open>parseFloat(data.spread || data.netProfit || data.price || 0)\<close>: the first string
  present, parsed to the nearest binary64 number.
\<close>

definition resolveSpread :: "Opportunity \<Rightarrow> jsnum" where
  "resolveSpread d =
     (case oppSpread d of
        Some x \<Rightarrow> binary64 x
      | None \<Rightarrow>
          (case netProfit d of
             Some x \<Rightarrow> binary64 x
           | None \<Rightarrow> (case oppPrice d of Some x \<Rightarrow> binary64 x | None \<Rightarrow> Num 0)))"

text \<open>\<^verbatim>\<open>data.pair || 'unknown'\<close>\<close>

definition logKey :: "Opportunity \<Rightarrow> string" where
  "logKey d = (if oppPair d = [] then ''unknown'' else oppPair d)"

text \<open>
  \<^verbatim>\<open>shouldLog(data)\<close>; \<open>now\<close> is its reading of \<^verbatim>\<open>Date.now()\<close>. The last test is
  \<^verbatim>\<open>Math.abs(spreadNow - prev.spread) < DEDUP_SPREAD_DELTA\<close>, a binary64 subtraction.
\<close>

definition shouldLog :: "int \<Rightarrow> Opportunity \<Rightarrow> (string \<rightharpoonup> LastLogged) \<Rightarrow> bool" where
  "shouldLog now d ll =
     (case ll (logKey d) of
        None \<Rightarrow> True
      | Some prev \<Rightarrow>
          if lastDirection prev \<noteq> Some (buyDex d) then True
          else if now - ts prev < DEDUP_COOLDOWN_MS then False
          else if js_gt DEDUP_SPREAD_DELTA (js_abs (js_sub64 (resolveSpread d) (lastSpread prev)))
          then False
          else True)"

definition updateLastLogged ::
  "int \<Rightarrow> Opportunity \<Rightarrow> (string \<rightharpoonup> LastLogged) \<Rightarrow> (string \<rightharpoonup> LastLogged)" where
  "updateLastLogged now d ll =
     ll(logKey d \<mapsto>
        \<lparr>lastSpread = resolveSpread d,
         lastDirection = (if buyDex d = [] then None else Some (buyDex d)),
         ts = now\<rparr>)"

text \<open>
  What one call of \<^verbatim>\<open>logOpportunity\<close> finds outside: the clock when \<^verbatim>\<open>shouldLog\<close>
  reads it and when \<^verbatim>\<open>updateLastLogged\<close> reads it, the log file (absent, present
  with a size in bytes, or \<^verbatim>\<open>statSync\<close> throwing), and whether the asynchronous
  append later reports an error. The state is \<^verbatim>\<open>lastLogged\<close>, the three counters of
  \<^verbatim>\<open>stats\<close> the function touches, and the entries handed to \<^verbatim>\<open>fs.appendFile\<close>.
  Pruning old files changes none of these.
\<close>

datatype fileProbe = Missing | Size nat | ProbeThrows

record LogEnv =
  checkNow :: int
  updateNow :: int
  probe :: fileProbe
  appendFails :: bool

record PaperLogger =
  lastLogged :: "string \<rightharpoonup> LastLogged"
  opportunitiesLogged :: nat
  opportunitiesSuppressed :: nat
  errors :: nat
  appended :: "Opportunity list"

definition writeEntry :: "LogEnv \<Rightarrow> Opportunity \<Rightarrow> PaperLogger \<Rightarrow> bool \<times> PaperLogger" where
  "writeEntry env d s =
     (True,
      s\<lparr>appended := appended s @ [d],
        lastLogged := updateLastLogged (updateNow env) d (lastLogged s),
        opportunitiesLogged := opportunitiesLogged s + 1,
        errors := errors s + (if appendFails env then 1 else 0)\<rparr>)"

definition logOpportunity :: "LogEnv \<Rightarrow> Opportunity \<Rightarrow> PaperLogger \<Rightarrow> bool \<times> PaperLogger" where
  "logOpportunity env d s =
     (if \<not> shouldLog (checkNow env) d (lastLogged s)
      then (False, s\<lparr>opportunitiesSuppressed := opportunitiesSuppressed s + 1\<rparr>)
      else
        (case probe env of
           ProbeThrows \<Rightarrow> (False, s\<lparr>errors := errors s + 1\<rparr>)
         | Size bytes \<Rightarrow>
             if bytes > MAX_FILE_SIZE_MB * 1024 * 1024 then (False, s)
             else writeEntry env d s
         | Missing \<Rightarrow> writeEntry env d s))"

text \<open>A fresh logger, a clock reading with a writable log, and an alert of the monitor.\<close>

definition freshLogger :: PaperLogger where
  "freshLogger =
     \<lparr>lastLogged = Map.empty, opportunitiesLogged = 0, opportunitiesSuppressed = 0,
      errors = 0, appended = []\<rparr>"

definition envAt :: "int \<Rightarrow> LogEnv" where
  "envAt t = \<lparr>checkNow = t, updateNow = t, probe = Missing, appendFails = False\<rparr>"

definition alert :: "rat \<Rightarrow> Opportunity" where
  "alert x =
     \<lparr>buyDex = ''Merchant Moe'', sellDex = ''Agni'', oppPair = ''WETH/WMNT'',
      oppSpread = Some x, netProfit = None, oppPrice = None\<rparr>"

section \<open>The block poller and its \<^verbatim>\<open>isChecking\<close> flag\<close>

text \<open>
  \<^verbatim>\<open>setInterval(pollBlock, POLL_INTERVAL_MS)\<close> starts an invocation of the
  asynchronous \<^verbatim>\<open>pollBlock\<close> at every tick, whether or not earlier invocations have
  finished. An invocation runs without interruption between its two \<^verbatim>\<open>await\<close>s, so
  its life is a sequence of at most three steps: the tick (the guard
  \<^verbatim>\<open>if (isChecking) return\<close>, then the request for the block number), the arrival
  of the block number (or of its failure), and the settling of the pair checks. The
  \<^verbatim>\<open>finally\<close> block runs on every exit from the \<^verbatim>\<open>try\<close>, the early
  \<^verbatim>\<open>return\<close> for an old block included. \<open>inFlight\<close> maps the invocations that are
  suspended at an \<^verbatim>\<open>await\<close> to where they wait; invocations are numbered in the
  order they pass the guard.
\<close>

datatype phase = AwaitingBlockNumber | CheckingPairs

datatype pollEvent =
  Tick
  | BlockNumber nat int
  | BlockNumberFails nat
  | ChecksSettled nat

record Monitor =
  isChecking :: bool
  lastBlock :: int
  inFlight :: "nat \<rightharpoonup> phase"
  started :: nat

fun pollBlock :: "Monitor \<Rightarrow> pollEvent \<Rightarrow> Monitor" where
  "pollBlock m Tick =
     (if isChecking m then m
      else m\<lparr>inFlight := (inFlight m)(started m \<mapsto> AwaitingBlockNumber),
             started := started m + 1\<rparr>)"
| "pollBlock m (BlockNumber i currentBlock) =
     (if inFlight m i = Some AwaitingBlockNumber then
        (if currentBlock \<le> lastBlock m
         then m\<lparr>isChecking := False, inFlight := (inFlight m)(i := None)\<rparr>
         else m\<lparr>lastBlock := currentBlock, isChecking := True,
                inFlight := (inFlight m)(i \<mapsto> CheckingPairs)\<rparr>)
      else m)"
| "pollBlock m (BlockNumberFails i) =
     (if inFlight m i = Some AwaitingBlockNumber
      then m\<lparr>isChecking := False, inFlight := (inFlight m)(i := None)\<rparr>
      else m)"
| "pollBlock m (ChecksSettled i) =
     (if inFlight m i = Some CheckingPairs
      then m\<lparr>isChecking := False, inFlight := (inFlight m)(i := None)\<rparr>
      else m)"

definition monitorStart :: Monitor where
  "monitorStart = \<lparr>isChecking = False, lastBlock = 0, inFlight = Map.empty, started = 0\<rparr>"

text \<open>The invocations whose pair checks are outstanding: the cycles that are executing.\<close>

definition cyclesExecuting :: "Monitor \<Rightarrow> nat list" where
  "cyclesExecuting m = filter (\<lambda>i. inFlight m i = Some CheckingPairs) [0..<started m]"

text \<open>
  The spread logger's \<^verbatim>\<open>poll\<close> has no guard: \<^verbatim>\<open>setInterval(poll, POLL_INTERVAL)\<close>
  starts a cycle at every firing, and a cycle is executing until its promise
  settles.
\<close>

datatype spreadPollEvent = IntervalFires | PollSettled nat

record SpreadPoller =
  pollsExecuting :: "nat list"
  pollsStarted :: nat

fun poll :: "SpreadPoller \<Rightarrow> spreadPollEvent \<Rightarrow> SpreadPoller" where
  "poll m IntervalFires =
     m\<lparr>pollsExecuting := pollsExecuting m @ [pollsStarted m],
       pollsStarted := pollsStarted m + 1\<rparr>"
| "poll m (PollSettled i) = m\<lparr>pollsExecuting := removeAll i (pollsExecuting m)\<rparr>"

definition spreadPollerStart :: SpreadPoller where
  "spreadPollerStart = \<lparr>pollsExecuting = [], pollsStarted = 0\<rparr>"

section \<open>Clamping of Liquidity Book inputs\<close>

lemma MAX_UINT128_value: "MAX_UINT128 = 2 ^ 128 - 1"
  by (simp add: MAX_UINT128_def)

lemma safeAmountIn_le: "safeAmountIn a \<le> MAX_UINT128"
  by (simp add: safeAmountIn_def)

text \<open>
  C7. \<^verbatim>\<open>quoteLB\<close> sends the quoter \<open>MAX_UINT128\<close> when the amount exceeds it and the
  amount itself otherwise; what it sends never exceeds \<open>MAX_UINT128\<close>, a non-negative
  amount survives the encoding into a 128-bit word unchanged (no wrap, no truncation),
  and the result is the quoter's answer for the amount sent: clamping raises no error
  of its own.
\<close>

theorem quoteLB_clamps:
  "fst (quoteLB f a) \<le> MAX_UINT128
   \<and> (a > MAX_UINT128 \<longrightarrow> fst (quoteLB f a) = MAX_UINT128)
   \<and> (a \<le> MAX_UINT128 \<longrightarrow> fst (quoteLB f a) = a)
   \<and> (0 \<le> a \<longrightarrow> uint (word_of_int (fst (quoteLB f a)) :: 128 word) = fst (quoteLB f a))
   \<and> snd (quoteLB f a) =
       (case f (fst (quoteLB f a)) of
          Inl e \<Rightarrow> Inl e
        | Inr amounts \<Rightarrow> Inr (if amounts = [] then None else Some (last amounts)))"
proof -
  have sent: "fst (quoteLB f a) = safeAmountIn a"
    by (simp add: quoteLB_def Let_def)
  have fits: "0 \<le> a \<Longrightarrow> uint (word_of_int (safeAmountIn a) :: 128 word) = safeAmountIn a"
    by (simp add: safeAmountIn_def MAX_UINT128_value uint_word_of_int)
  show ?thesis
    unfolding sent using fits safeAmountIn_le [of a]
    by (simp add: quoteLB_def Let_def safeAmountIn_def)
qed

theorem quoteLB_clamps_witness:
  "fst (quoteLB (\<lambda>x. (Inr [x, x div 2] :: QuoteError + int list)) (2 ^ 128 + 5)) = 2 ^ 128 - 1
   \<and> snd (quoteLB (\<lambda>x. (Inr [x, x div 2] :: QuoteError + int list)) (2 ^ 128 + 5))
       = Inr (Some ((2 ^ 128 - 1) div 2))
   \<and> fst (quoteLB (\<lambda>x. (Inr [x, x div 2] :: QuoteError + int list)) 1000) = 1000
   \<and> uint (word_of_int (fst (quoteLB (\<lambda>x. (Inr [x, x div 2] :: QuoteError + int list))
        (2 ^ 128 + 5))) :: 128 word) = 2 ^ 128 - 1"
  using quoteLB_clamps [of "\<lambda>x. (Inr [x, x div 2] :: QuoteError + int list)" "2 ^ 128 + 5"]
    quoteLB_clamps [of "\<lambda>x. (Inr [x, x div 2] :: QuoteError + int list)" 1000]
  by (simp add: MAX_UINT128_value)

section \<open>Schema detection of the Algebra quoter\<close>

lemma quoteAlgebra_None:
  "quoteAlgebra call None =
     (case call V1 of
        Inr r \<Rightarrow> (Inr (Some r), Some V1, [V1])
      | Inl e1 \<Rightarrow>
          (case call V2 of
             Inr r \<Rightarrow> (Inr (Some r), Some V2, [V1, V2])
           | Inl e2 \<Rightarrow> (Inl e2, None, [V1, V2])))"
  by (simp add: quoteAlgebra_def quoteAlgebraV2_def split: sum.splits)

lemma quoteAlgebra_Some:
  "quoteAlgebra call (Some v) = (map_sum id Some (call v), Some v, [v])"
  by (cases v) (simp_all add: quoteAlgebra_def quoteAlgebraV2_def split: sum.splits)

lemma quoteAlgebraCalls_Some:
  "quoteAlgebraCalls calls (Some v) = (map (\<lambda>c. [v]) calls, Some v)"
  by (induction calls) (simp_all add: quoteAlgebra_Some)

text \<open>
  C2, as claimed, fails twice. The code never looks at why the V1 call was rejected: a
  venue that reverts for lack of liquidity under V1 is asked again under V2, and V2 is
  cached. And the cache is one variable for the whole family, not one per venue: once
  a V1 venue has answered, a venue that only speaks V2 is called with V1 alone.
\<close>

theorem quoteAlgebra_any_rejection_counterexample:
  "noLiquidityV1 V1 = Inl RevertedCall
   \<and> quoteAlgebra noLiquidityV1 None = (Inr (Some 7), Some V2, [V1, V2])
   \<and> quoteAlgebraCalls [v1OnlyVenue, v2OnlyVenue] None = ([[V1], [V1]], Some V1)"
  by (simp add: quoteAlgebra_None quoteAlgebra_Some noLiquidityV1_def v1OnlyVenue_def
      v2OnlyVenue_def)

text \<open>
  C2, amended. With an empty cache \<^verbatim>\<open>quoteAlgebra\<close> calls V1 first; if V1 answers,
  V1 is cached; if V1 throws, whatever the reason, it calls V2, caches V2 if V2
  answers, and otherwise throws V2's error and leaves the cache empty (the next call
  detects again). With version \<open>v\<close> cached, a call tries \<open>v\<close> alone, passes its
  answer or its error to the caller and leaves the cache as it is; so over any later
  sequence of calls, to any venue of the family, only \<open>v\<close> is ever tried.
\<close>

theorem quoteAlgebra_detect_then_cache:
  "quoteAlgebra call None =
     (case call V1 of
        Inr r \<Rightarrow> (Inr (Some r), Some V1, [V1])
      | Inl e1 \<Rightarrow>
          (case call V2 of
             Inr r \<Rightarrow> (Inr (Some r), Some V2, [V1, V2])
           | Inl e2 \<Rightarrow> (Inl e2, None, [V1, V2])))
   \<and> quoteAlgebra call (Some v) = (map_sum id Some (call v), Some v, [v])
   \<and> quoteAlgebraCalls calls (Some v) = (map (\<lambda>c. [v]) calls, Some v)"
  using quoteAlgebra_None [of call] quoteAlgebra_Some [of call v]
    quoteAlgebraCalls_Some [of calls v]
  by simp

theorem quoteAlgebra_detect_then_cache_witness:
  "quoteAlgebra v2OnlyVenue None = (Inr (Some 9), Some V2, [V1, V2])
   \<and> quoteAlgebra v1OnlyVenue (Some V2) = (Inl SchemaMismatch, Some V2, [V2])
   \<and> quoteAlgebraCalls [v2OnlyVenue, v1OnlyVenue, noLiquidityV1] (Some V2)
       = ([[V2], [V2], [V2]], Some V2)"
  using quoteAlgebra_detect_then_cache [of v2OnlyVenue V2 "[v2OnlyVenue, v1OnlyVenue, noLiquidityV1]"]
    quoteAlgebra_detect_then_cache [of v1OnlyVenue V2 "[]"]
  by (simp add: v2OnlyVenue_def v1OnlyVenue_def noLiquidityV1_def quoteAlgebra_Some)

section \<open>Binary64 rounding\<close>

text \<open>
  \<open>floorlog2\<close> finds the binary exponent, \<open>roundHalfEven\<close> is within a half of its
  argument, and so a finite \<open>binary64 x\<close> is within half a unit in the last place of \<open>x\<close>:
  a relative error of at most \<open>2^(-53)\<close> from \<open>2^(-1022)\<close> on, and an absolute error of at
  most \<open>2^(-1075)\<close> below. Below \<open>2^1023\<close> in magnitude the result is finite.
\<close>

lemma bitlen_pos_bounds:
  assumes "0 < (p::int)"
  shows "2 powi (bitlen p - 1) \<le> (of_int p :: rat)" and "(of_int p :: rat) < 2 powi (bitlen p)"
proof -
  from assms have b: "2 ^ nat (bitlen p - 1) \<le> p" "p < 2 ^ nat (bitlen p)"
    using bitlen_bounds[of p] by auto
  have bp: "0 < bitlen p"
  proof (rule ccontr)
    assume "\<not> 0 < bitlen p"
    then have "nat (bitlen p) = 0" by simp
    with b(2) assms show False by simp
  qed
  have "(of_int (2 ^ nat (bitlen p - 1)) :: rat) \<le> of_int p" using b(1) by (subst of_int_le_iff)
  then show "2 powi (bitlen p - 1) \<le> (of_int p :: rat)"
    using bp by (simp add: power_int_def)
  have "(of_int p :: rat) < of_int (2 ^ nat (bitlen p))" using b(2) by (subst of_int_less_iff)
  then show "(of_int p :: rat) < 2 powi (bitlen p)"
    using bp by (simp add: power_int_def)
qed

lemma floorlog2_bounds:
  assumes "0 < x"
  shows "2 powi (floorlog2 x) \<le> x" and "x < 2 powi (floorlog2 x + 1)"
proof -
  obtain p q where pq: "quotient_of x = (p, q)" by (cases "quotient_of x")
  then have q0: "0 < q" by (rule quotient_of_denom_pos)
  have x: "x = of_int p / of_int q" using pq by (rule quotient_of_div)
  have p0: "0 < p" using assms q0 x by (simp add: zero_less_divide_iff)
  define e where "e = bitlen p - bitlen q"
  have fl: "floorlog2 x = (if 2 powi e \<le> x then e else e - 1)"
    by (simp add: floorlog2_def pq e_def Let_def)
  have lo: "2 powi (e - 1) \<le> x"
  proof -
    have "2 powi (e - 1) * (of_int q :: rat) \<le> 2 powi (e - 1) * 2 powi (bitlen q)"
      using bitlen_pos_bounds(2)[OF q0] by (intro mult_left_mono) auto
    also have "\<dots> = 2 powi (bitlen p - 1)"
      by (simp add: e_def flip: power_int_add)
    also have "\<dots> \<le> of_int p" by (rule bitlen_pos_bounds(1)[OF p0])
    finally show ?thesis using q0 by (simp add: x pos_le_divide_eq)
  qed
  have hi: "x < 2 powi (e + 1)"
  proof -
    have "(of_int p :: rat) < 2 powi (bitlen p)" by (rule bitlen_pos_bounds(2)[OF p0])
    also have "\<dots> = 2 powi (e + 1) * 2 powi (bitlen q - 1)"
      by (simp add: e_def flip: power_int_add)
    also have "\<dots> \<le> 2 powi (e + 1) * of_int q"
      using bitlen_pos_bounds(1)[OF q0] by (intro mult_left_mono) auto
    finally show ?thesis using q0 by (simp add: x pos_divide_less_eq)
  qed
  show "2 powi (floorlog2 x) \<le> x" using lo by (simp add: fl)
  show "x < 2 powi (floorlog2 x + 1)" using hi by (auto simp: fl not_le)
qed

lemma roundHalfEven_near: "2 * \<bar>of_int (roundHalfEven y) - y\<bar> \<le> 1"
proof -
  define z :: rat where "z = of_int \<lfloor>y\<rfloor>"
  have lo: "z \<le> y" unfolding z_def by (rule of_int_floor_le)
  have hi: "y < z + 1" unfolding z_def by linarith
  from lo hi show ?thesis
    by (simp add: roundHalfEven_def Let_def abs_if flip: z_def)
qed

lemma roundHalfEven_nonneg: "0 \<le> y \<Longrightarrow> 0 \<le> roundHalfEven y"
  by (simp add: roundHalfEven_def Let_def)

lemma binary64_zero: "binary64 0 = Num 0"
  by (simp add: binary64_def)

lemma binary64_nonneg:
  assumes "0 \<le> x" and "binary64 x = Num r"
  shows "0 \<le> r"
proof (cases "x = 0")
  case True
  with assms show ?thesis by (simp add: binary64_def)
next
  case False
  define u :: rat where "u = 2 powi (max (floorlog2 \<bar>x\<bar>) (- 1022) - 52)"
  have u0: "0 < u" by (simp add: u_def)
  from assms False have r: "r = of_int (roundHalfEven (x / u)) * u"
    by (simp add: binary64_def Let_def u_def split: if_splits)
  have "0 \<le> roundHalfEven (x / u)"
    using assms(1) u0 by (intro roundHalfEven_nonneg) simp
  with u0 show ?thesis by (simp add: r)
qed

lemma binary64_error:
  assumes "binary64 x = Num r"
  shows "2 ^ 53 * \<bar>r - x\<bar> \<le> max \<bar>x\<bar> (2 powi (- 1022))"
proof (cases "x = 0")
  case True
  with assms show ?thesis by (simp add: binary64_def)
next
  case False
  define e where "e = max (floorlog2 \<bar>x\<bar>) (- 1022)"
  define u :: rat where "u = 2 powi (e - 52)"
  have u0: "0 < u" by (simp add: u_def)
  from assms False have r: "r = of_int (roundHalfEven (x / u)) * u"
    by (simp add: binary64_def Let_def u_def e_def split: if_splits)
  have "r - x = (of_int (roundHalfEven (x / u)) - x / u) * u"
    using u0 by (simp add: r algebra_simps)
  then have "2 * \<bar>r - x\<bar> = (2 * \<bar>of_int (roundHalfEven (x / u)) - x / u\<bar>) * u"
    using u0 by (simp add: abs_mult)
  also have "\<dots> \<le> 1 * u"
    using roundHalfEven_near [of "x / u"] u0 by (intro mult_right_mono) simp_all
  finally have half: "2 * \<bar>r - x\<bar> \<le> u" by simp
  have "2 ^ 53 * \<bar>r - x\<bar> = 2 ^ 52 * (2 * \<bar>r - x\<bar>)" by simp
  also have "\<dots> \<le> 2 ^ 52 * u" using half by (intro mult_left_mono) simp_all
  also have "\<dots> = 2 powi e"
  proof -
    have "(2 :: rat) powi e = 2 powi (52 + (e - 52))" by simp
    also have "\<dots> = 2 powi 52 * 2 powi (e - 52)" by (rule power_int_add) simp
    also have "(2 :: rat) powi 52 = 2 ^ 52" by (rule power_int_numeral)
    finally show ?thesis by (simp only: u_def)
  qed
  also have "\<dots> \<le> max \<bar>x\<bar> (2 powi (- 1022))"
  proof (cases "floorlog2 \<bar>x\<bar> \<le> - 1022")
    case True
    then have "e = - 1022" by (simp add: e_def)
    then show ?thesis by simp
  next
    case False
    then have "e = floorlog2 \<bar>x\<bar>" by (simp add: e_def)
    moreover have "2 powi (floorlog2 \<bar>x\<bar>) \<le> \<bar>x\<bar>"
      using \<open>x \<noteq> 0\<close> by (intro floorlog2_bounds(1)) simp
    ultimately show ?thesis by simp
  qed
  finally show ?thesis .
qed

lemma floorlog2_less:
  assumes "0 < x" and "x < 2 powi k"
  shows "floorlog2 x < k"
proof (rule ccontr)
  assume "\<not> floorlog2 x < k"
  then have "(2 :: rat) powi k \<le> 2 powi (floorlog2 x)"
    by (intro power_int_increasing) simp_all
  also have "\<dots> \<le> x" using assms(1) by (rule floorlog2_bounds(1))
  finally show False using assms(2) by simp
qed

lemma binary64_finite:
  assumes "\<bar>x\<bar> < 2 powi 1023"
  shows "\<exists>r. binary64 x = Num r"
proof (cases "x = 0")
  case True
  then show ?thesis by (simp add: binary64_def)
next
  case False
  define e where "e = max (floorlog2 \<bar>x\<bar>) (- 1022)"
  have "floorlog2 \<bar>x\<bar> < 1023" using assms False by (intro floorlog2_less) simp_all
  then have e: "e < 1023" by (simp add: e_def)
  from False have "binary64 x =
      (if 1024 \<le> e \<or> (e = 1023 \<and> \<bar>roundHalfEven (x / 2 powi (e - 52))\<bar> = 2 ^ 53)
       then (if 0 < x then PosInf else NegInf)
       else Num (of_int (roundHalfEven (x / 2 powi (e - 52))) * 2 powi (e - 52)))"
    unfolding binary64_def Let_def e_def by (rule if_not_P)
  with e show ?thesis by simp
qed

lemma binary64_near:
  assumes "binary64 x = Num r" and "2 powi (- 1022) \<le> \<bar>x\<bar>"
  shows "\<bar>x\<bar> \<le> 2 * \<bar>r\<bar>" and "\<bar>r\<bar> \<le> 2 * \<bar>x\<bar>"
proof -
  have "max \<bar>x\<bar> (2 powi (- 1022)) = \<bar>x\<bar>"
    using assms(2) by (rule max_absorb1)
  with binary64_error [OF assms(1)] have "2 ^ 53 * \<bar>r - x\<bar> \<le> \<bar>x\<bar>"
    by (simp only:)
  moreover have "2 * \<bar>r - x\<bar> \<le> 2 ^ 53 * \<bar>r - x\<bar>"
    by (intro mult_right_mono) simp_all
  ultimately have d: "2 * \<bar>r - x\<bar> \<le> \<bar>x\<bar>" by simp
  from d show "\<bar>x\<bar> \<le> 2 * \<bar>r\<bar>" by (simp add: abs_if split: if_splits)
  from d show "\<bar>r\<bar> \<le> 2 * \<bar>x\<bar>" by (simp add: abs_if split: if_splits)
qed

lemma usd_finite:
  assumes "1 / 10 ^ 8 \<le> \<bar>y\<bar>" and "\<bar>y\<bar> \<le> 10 ^ 21 + 1"
    and "1 / 10 ^ 100 \<le> price" and "price \<le> 10 ^ 100"
  shows "\<exists>v. js_mul64 (binary64 y) (Num price) = Num v \<and> v \<noteq> 0"
proof -
  have lo: "(2 :: rat) powi (- 1022) \<le> 1 / 10 ^ 8 / 2 * (1 / 10 ^ 100)"
    by (simp add: power_int_minus)
  have hi: "2 * (10 ^ 21 + 1) * 10 ^ 100 < (2 :: rat) powi 1023"
    by simp
  have p0: "0 < price" using assms(3) by (rule less_le_trans [rotated]) simp
  have "\<bar>y\<bar> < 2 powi 1023"
    using assms(2) hi by (simp add: power_int_numeral [where 'a = rat])
  from binary64_finite [OF this] obtain r where r: "binary64 y = Num r" by blast
  have "(2 :: rat) powi (- 1022) \<le> 1 / 10 ^ 8" by (simp add: power_int_minus)
  with assms(1) have "2 powi (- 1022) \<le> \<bar>y\<bar>" by simp
  from binary64_near [OF r this] have r1: "\<bar>y\<bar> \<le> 2 * \<bar>r\<bar>" and r2: "\<bar>r\<bar> \<le> 2 * \<bar>y\<bar>" .
  define z where "z = r * price"
  have az: "\<bar>z\<bar> = \<bar>r\<bar> * price" using p0 by (simp add: z_def abs_mult)
  have "1 / 10 ^ 8 / 2 * (1 / 10 ^ 100) \<le> \<bar>r\<bar> * price"
    using r1 assms(1,3) by (intro mult_mono) simp_all
  with lo have zlo: "2 powi (- 1022) \<le> \<bar>z\<bar>" by (simp add: az)
  have "\<bar>r\<bar> * price \<le> (2 * (10 ^ 21 + 1)) * 10 ^ 100"
    using r2 assms(2,4) p0 by (intro mult_mono) simp_all
  with hi have "\<bar>z\<bar> < 2 powi 1023" by (simp add: az)
  from binary64_finite [OF this] obtain v where v: "binary64 z = Num v" by blast
  from binary64_near(1) [OF v zlo] zlo have "v \<noteq> 0"
    by (auto simp: not_le dest!: order_trans)
  with r v show ?thesis by (simp add: z_def)
qed

section \<open>Round-trip evaluation\<close>

subsection \<open>The input amount\<close>

lemma toFixedScaled_nearest:
  "2 * \<bar>of_int (toFixedScaled x f) - x * 10 ^ f\<bar> \<le> (1 :: rat)"
proof -
  have near: "2 * \<bar>of_int \<lfloor>y + 1 / 2\<rfloor> - y\<bar> \<le> (1 :: rat)" for y :: rat
  proof -
    define z :: rat where "z = of_int \<lfloor>y + 1 / 2\<rfloor>"
    have lo: "z \<le> y + 1 / 2" unfolding z_def by (rule of_int_floor_le)
    have hi: "y + 1 / 2 < z + 1" unfolding z_def by linarith
    from lo hi have "2 * \<bar>z - y\<bar> \<le> 1" by (simp add: abs_if)
    then show ?thesis by (simp add: z_def)
  qed
  show ?thesis
  proof (cases "x < 0")
    case True
    from near [of "- x * 10 ^ f"] True show ?thesis
      by (simp add: toFixedScaled_def abs_if split: if_splits)
  next
    case False
    from near [of "x * 10 ^ f"] False show ?thesis
      by (simp add: toFixedScaled_def)
  qed
qed

lemma toFixedScaled_nonneg: "0 \<le> x \<Longrightarrow> 0 \<le> toFixedScaled x f"
  by (simp add: toFixedScaled_def)

lemma toFixedScaled_zero: "toFixedScaled 0 f = 0"
  by (simp add: toFixedScaled_def floor_eq_iff)

lemma parseAmountIn0_range:
  assumes "parseAmountIn0 notional price dec = Some a" and "a \<noteq> 0"
  shows "1 / 10 ^ 8 \<le> \<bar>of_int a / 10 ^ dec :: rat\<bar>"
    and "\<bar>of_int a / 10 ^ dec :: rat\<bar> \<le> 10 ^ 21 + 1"
proof -
  define f where "f = min dec 8"
  from assms(1) obtain x where x: "\<bar>x\<bar> < 10 ^ 21"
    and a: "a = toFixedScaled x f * 10 ^ (dec - f)"
    by (auto simp: parseAmountIn0_def Let_def f_def not_le split: jsnum.splits if_splits)
  define n where "n = toFixedScaled x f"
  have split: "(10 :: rat) ^ dec = 10 ^ f * 10 ^ (dec - f)"
    by (simp add: f_def flip: power_add)
  have q: "(of_int a / 10 ^ dec :: rat) = of_int n / 10 ^ f"
    by (simp add: a n_def split)
  have f8: "(10 :: rat) ^ f \<le> 10 ^ 8"
    by (intro power_increasing) (simp_all add: f_def)
  from assms(2) have "n \<noteq> 0" by (auto simp: a n_def)
  then have "1 \<le> \<bar>n\<bar>" by simp
  then have "(of_int 1 :: rat) \<le> of_int \<bar>n\<bar>" by (subst of_int_le_iff)
  then have n1: "1 \<le> \<bar>of_int n :: rat\<bar>" by simp
  have "1 / 10 ^ 8 \<le> 1 / (10 :: rat) ^ f"
    using f8 by (intro divide_left_mono) simp_all
  also have "\<dots> \<le> \<bar>of_int n :: rat\<bar> / 10 ^ f"
    using n1 by (intro divide_right_mono) simp_all
  finally show "1 / 10 ^ 8 \<le> \<bar>of_int a / 10 ^ dec :: rat\<bar>"
    by (simp add: q)
  have "2 * \<bar>of_int n - x * 10 ^ f\<bar> \<le> (1 :: rat)"
    unfolding n_def by (rule toFixedScaled_nearest)
  then have "\<bar>of_int n :: rat\<bar> \<le> \<bar>x * 10 ^ f\<bar> + 1 / 2"
    by (simp add: abs_if split: if_splits)
  also have "\<dots> \<le> 10 ^ 21 * 10 ^ f + 1 * 10 ^ f"
  proof (rule add_mono)
    show "\<bar>x * 10 ^ f\<bar> \<le> 10 ^ 21 * (10 :: rat) ^ f"
      using x by (simp add: abs_mult)
    have "(1 :: rat) \<le> 10 ^ f" by simp
    then have "(1 :: rat) / 2 \<le> 10 ^ f" by (rule order_trans [rotated]) simp
    then show "1 / 2 \<le> 1 * (10 :: rat) ^ f" by (simp only: mult_1)
  qed
  finally have "\<bar>of_int n :: rat\<bar> \<le> (10 ^ 21 + 1) * 10 ^ f"
    by (simp add: algebra_simps)
  then have "\<bar>of_int n :: rat\<bar> / 10 ^ f \<le> 10 ^ 21 + 1"
    by (simp add: pos_divide_le_eq)
  then show "\<bar>of_int a / 10 ^ dec :: rat\<bar> \<le> 10 ^ 21 + 1"
    by (simp add: q)
qed

text \<open>
  C4, as claimed, fails: \<^verbatim>\<open>toFixed\<close> rounds to nearest, not down, and at
  \<open>min decimals 8\<close> fractional digits, not at the asset's precision. For a notional of
  3 USD of an 18-decimal asset priced at 1024 USD (the quotient \<open>0.0029296875\<close> is a
  binary64 number, so the division is exact) the text passed to \<^verbatim>\<open>parseUnits\<close> is
  \<^verbatim>\<open>0.00292969\<close>, and the native amount exceeds the exact quotient.
\<close>

theorem parseAmountIn0_rounds_up_counterexample:
  "parseAmountIn0 3 1024 18 = Some 2929690000000000
   \<and> (of_int 2929690000000000 :: rat) > 3 / 1024 * 10 ^ 18"
proof
  show "parseAmountIn0 3 1024 18 = Some 2929690000000000" by code_simp
  show "(of_int 2929690000000000 :: rat) > 3 / 1024 * 10 ^ 18" by simp
qed

text \<open>
  C4, amended. For a positive notional and a positive reference price, let \<open>x\<close> be the
  binary64 quotient of the two, below \<open>10^21\<close>. The native input amount is \<open>x\<close> rounded
  to the nearest multiple of \<open>10^(-f)\<close>, \<open>f = min decimals 8\<close>, the upper one when \<open>x\<close>
  itself lies half way, and then scaled by \<open>10^decimals\<close>: the integer
  \<open>\<lfloor>x * 10^f + 1/2\<rfloor> * 10^(decimals - f)\<close>. The quotient \<open>x\<close> is non-negative and within
  \<open>2^(-53)\<close>, relatively, of the exact quotient (within \<open>2^(-1075)\<close> for a quotient below
  \<open>2^(-1022)\<close>), so the amount differs from the exact native quotient by at most half
  a step of \<open>10^(decimals - f)\<close> native units plus that division error, in either
  direction.
\<close>

theorem parseAmountIn0_nearest:
  assumes "0 < notional" and "0 < price"
    and "binary64 (notional / price) = Num x" and "x < 10 ^ 21"
  shows "parseAmountIn0 notional price dec
           = Some (\<lfloor>x * 10 ^ min dec 8 + 1 / 2\<rfloor> * 10 ^ (dec - min dec 8))
       \<and> 0 \<le> x
       \<and> 2 ^ 53 * \<bar>x - notional / price\<bar> \<le> max (notional / price) (2 powi (- 1022))
       \<and> 2 * \<bar>of_int (\<lfloor>x * 10 ^ min dec 8 + 1 / 2\<rfloor> * 10 ^ (dec - min dec 8))
                - notional / price * 10 ^ dec\<bar>
           \<le> 10 ^ (dec - min dec 8)
              + max (notional / price) (2 powi (- 1022)) * 10 ^ dec / 2 ^ 52"
proof -
  define q where "q = notional / price"
  define f where "f = min dec 8"
  define n where "n = \<lfloor>x * 10 ^ f + 1 / 2\<rfloor>"
  have q0: "0 < q" using assms(1,2) by (simp add: q_def)
  have b: "binary64 q = Num x" using assms(3) by (simp add: q_def)
  have x0: "0 \<le> x" using binary64_nonneg [OF _ b] q0 by simp
  have err: "2 ^ 53 * \<bar>x - q\<bar> \<le> max q (2 powi (- 1022))"
    using binary64_error [OF b] q0 by simp
  have small: "\<not> \<bar>x\<bar> \<ge> 10 ^ 21" using assms(4) x0 by simp
  have tf: "toFixedScaled x f = n" using x0 by (simp add: toFixedScaled_def n_def)
  have dv: "js_div64 (Num notional) (Num price) False = Num x"
    using assms(2) b by (simp add: q_def)
  have val: "parseAmountIn0 notional price dec = Some (n * 10 ^ (dec - f))"
    unfolding parseAmountIn0_def Let_def dv f_def [symmetric] using small tf by simp
  have split: "(10 :: rat) ^ dec = 10 ^ f * 10 ^ (dec - f)"
    by (simp add: f_def flip: power_add)
  have "of_int (n * 10 ^ (dec - f)) - x * 10 ^ dec
          = (of_int n - x * 10 ^ f) * (10 :: rat) ^ (dec - f)"
    by (simp add: split algebra_simps)
  then have "2 * \<bar>of_int (n * 10 ^ (dec - f)) - x * 10 ^ dec\<bar>
          = (2 * \<bar>of_int n - x * 10 ^ f\<bar>) * (10 :: rat) ^ (dec - f)"
    by (simp add: abs_mult)
  also have "\<dots> \<le> 1 * (10 :: rat) ^ (dec - f)"
    using toFixedScaled_nearest [of x f] by (intro mult_right_mono) (simp_all add: tf)
  finally have step: "2 * \<bar>of_int (n * 10 ^ (dec - f)) - x * 10 ^ dec\<bar> \<le> (10 :: rat) ^ (dec - f)"
    by simp
  have "2 * \<bar>x * 10 ^ dec - q * 10 ^ dec\<bar> = 2 * \<bar>x - q\<bar> * 10 ^ dec"
    by (simp add: abs_mult flip: left_diff_distrib)
  also have "\<dots> = (2 ^ 53 * \<bar>x - q\<bar>) * (10 ^ dec / 2 ^ 52)" by simp
  also have "\<dots> \<le> max q (2 powi (- 1022)) * (10 ^ dec / 2 ^ 52)"
    using err by (intro mult_right_mono) simp_all
  finally have dive: "2 * \<bar>x * 10 ^ dec - q * 10 ^ dec\<bar>
      \<le> max q (2 powi (- 1022)) * 10 ^ dec / 2 ^ 52" by simp
  have "2 * \<bar>of_int (n * 10 ^ (dec - f)) - q * 10 ^ dec\<bar>
      \<le> 2 * \<bar>of_int (n * 10 ^ (dec - f)) - x * 10 ^ dec\<bar> + 2 * \<bar>x * 10 ^ dec - q * 10 ^ dec\<bar>"
    using abs_triangle_ineq [of "of_int (n * 10 ^ (dec - f)) - x * 10 ^ dec"
        "x * 10 ^ dec - q * 10 ^ dec"]
    by simp
  also have "\<dots> \<le> 10 ^ (dec - f) + max q (2 powi (- 1022)) * 10 ^ dec / 2 ^ 52"
    using step dive by (rule add_mono)
  finally have tot: "2 * \<bar>of_int (n * 10 ^ (dec - f)) - q * 10 ^ dec\<bar>
      \<le> 10 ^ (dec - f) + max q (2 powi (- 1022)) * 10 ^ dec / 2 ^ 52" .
  from val x0 err tot show ?thesis
    unfolding q_def f_def n_def by blast
qed

text \<open>
  Two evaluations. 1000 USD at a price of \<open>3 / 2^19\<close>: the binary64 quotient is
  \<open>174762666.66666665673\<dots>\<close>, printed as \<^verbatim>\<open>174762666.66666666\<close>. 3 USD at a price of 2560:
  the exact quotient \<open>0.001171875\<close> is a decimal tie, the binary64 quotient lies below
  it and is printed as \<^verbatim>\<open>0.00117187\<close>.
\<close>

theorem parseAmountIn0_nearest_witness:
  "(0 :: rat) < 1000 \<and> (0 :: rat) < 3 / 524288
   \<and> binary64 (1000 / (3 / 524288)) = Num (5864062014805333 / 33554432)
   \<and> parseAmountIn0 1000 (3 / 524288) 18 = Some 174762666666666660000000000
   \<and> binary64 (3 / 2560) = Num (5404319552844595 / 4611686018427387904)
   \<and> (5404319552844595 / 4611686018427387904 :: rat) < 3 / 2560
   \<and> parseAmountIn0 3 2560 18 = Some 1171870000000000"
proof -
  have b1: "binary64 (1000 / (3 / 524288)) = Num (5864062014805333 / 33554432)"
    by code_simp
  have s1: "(5864062014805333 / 33554432 :: rat) < 10 ^ 21"
    by simp
  have f1: "\<lfloor>(5864062014805333 / 33554432 :: rat) * 10 ^ min 18 8 + 1 / 2\<rfloor> * 10 ^ (18 - min 18 8)
      = (174762666666666660000000000 :: int)"
    by code_simp
  have b2: "binary64 (3 / 2560) = Num (5404319552844595 / 4611686018427387904)"
    by code_simp
  have s2: "(5404319552844595 / 4611686018427387904 :: rat) < 10 ^ 21"
    by simp
  have f2: "\<lfloor>(5404319552844595 / 4611686018427387904 :: rat) * 10 ^ min 18 8 + 1 / 2\<rfloor>
        * 10 ^ (18 - min 18 8) = (1171870000000000 :: int)"
    by code_simp
  have lt: "(5404319552844595 / 4611686018427387904 :: rat) < 3 / 2560"
    by simp
  have p1: "(0 :: rat) < 1000" and p2: "(0 :: rat) < 3 / 524288" and p3: "(0 :: rat) < 3"
    and p4: "(0 :: rat) < 2560"
    by simp_all
  from parseAmountIn0_nearest [OF p1 p2 b1 s1, of 18] f1
  have v1: "parseAmountIn0 1000 (3 / 524288) 18 = Some 174762666666666660000000000"
    by simp
  from parseAmountIn0_nearest [OF p3 p4 b2 s2, of 18] f2
  have v2: "parseAmountIn0 3 2560 18 = Some 1171870000000000"
    by simp
  from p1 p2 b1 v1 b2 lt v2 show ?thesis by blast
qed

subsection \<open>The two loops\<close>

lemma forwardLoop_entries:
  "forwardLoop q t0 t1 a vs (fqs, hist) =
     (fqs @ forwardEntries q t0 t1 a vs hist, hist @ map (forwardCall t0 t1 a) vs)"
  by (induction vs arbitrary: fqs hist)
    (simp_all add: forwardCall_def Let_def split: sum.splits)

lemma forwardEntries_venues: "map venue (forwardEntries q t0 t1 a vs hist) = vs"
  by (induction vs arbitrary: hist) (simp_all split: sum.splits)

lemma forwardEntries_length: "length (forwardEntries q t0 t1 a vs hist) = length vs"
  using forwardEntries_venues [of q t0 t1 a vs hist] by (metis length_map)

lemma forwardEntries_nth:
  "k < length vs \<Longrightarrow>
   amountOut (forwardEntries q t0 t1 a vs hist ! k) =
     (case q (hist @ map (forwardCall t0 t1 a) (take k vs)) (forwardCall t0 t1 a (vs ! k)) of
        Inl msg \<Rightarrow> None | Inr out \<Rightarrow> Some out)"
proof (induction vs arbitrary: hist k)
  case Nil
  then show ?case by simp
next
  case (Cons v vs)
  show ?case
  proof (cases k)
    case 0
    then show ?thesis by (simp split: sum.splits)
  next
    case (Suc k')
    with Cons.prems have "k' < length vs" by simp
    from Cons.IH [OF this, of "hist @ [forwardCall t0 t1 a v]"] Suc
    show ?thesis by simp
  qed
qed

lemma reverseStep_filter:
  "reverseStep q mk t0 t1 vs fqs (rs, hist) ij =
     (if eligible fqs ij
      then (rs @ (case q hist (reverseCall t0 t1 vs fqs ij) of
                    Inl msg \<Rightarrow> []
                  | Inr amountBack \<Rightarrow> [mk (venue (fqs ! fst ij)) (vs ! snd ij) amountBack]),
            hist @ [reverseCall t0 t1 vs fqs ij])
      else (rs, hist))"
  by (cases ij)
    (simp add: reverseStep_def eligible_def reverseCall_def Let_def
      split: option.splits sum.splits)

lemma foldl_reverseStep:
  "foldl (reverseStep q mk t0 t1 vs fqs) (rs, hist) ps =
     (rs @ collectTrips q mk t0 t1 vs fqs (filter (eligible fqs) ps) hist,
      hist @ map (reverseCall t0 t1 vs fqs) (filter (eligible fqs) ps))"
proof (induction ps arbitrary: rs hist)
  case Nil
  show ?case by simp
next
  case (Cons ij ps)
  show ?case
  proof (cases "eligible fqs ij")
    case True
    then show ?thesis
      by (simp add: reverseStep_filter Cons.IH)
  next
    case False
    then show ?thesis
      by (simp add: reverseStep_filter Cons.IH)
  qed
qed

lemma reverseLoop_collect:
  "reverseLoop q mk t0 t1 vs fqs hist =
     (collectTrips q mk t0 t1 vs fqs
        (filter (eligible fqs) (List.product [0..<length fqs] [0..<length fqs])) hist,
      hist @ map (reverseCall t0 t1 vs fqs)
        (filter (eligible fqs) (List.product [0..<length fqs] [0..<length fqs])))"
  by (simp add: reverseLoop_def foldl_reverseStep)

lemma eligible_set:
  "set (filter (eligible fqs) (List.product [0..<n] [0..<n])) =
     {(i, j). i < n \<and> j < n \<and> i \<noteq> j \<and> (\<exists>out. amountOut (fqs ! i) = Some out \<and> out \<noteq> 0)}"
  by (auto simp: eligible_def split: option.splits)

lemma eligible_distinct: "distinct (filter (eligible fqs) (List.product [0..<n] [0..<n]))"
  by (simp add: distinct_product)

text \<open>The evaluation, once past its guards, in closed form.\<close>

lemma calculateRoundTrips_closed:
  assumes "TOKENS (token0 pair) = Some t0" and "TOKENS (token1 pair) = Some t1"
    and "priceUSD t0 = Some price" and "0 < price"
    and "parseAmountIn0 notional price (decimals t0) = Some a"
  shows "calculateRoundTrips TOKENS gas q pair notional =
     (let fqs = forwardEntries q (token0 pair) (token1 pair) a (venues pair) [];
          fcalls = map (forwardCall (token0 pair) (token1 pair) a) (venues pair);
          E = filter (eligible fqs) (List.product [0..<length fqs] [0..<length fqs])
      in \<lparr>results = Some (collectTrips q (roundTrip gas notional (decimals t0) price a)
                 (token0 pair) (token1 pair) (venues pair) fqs E fcalls),
          forwardQuotes = fqs,
          quoteCalls = fcalls @ map (reverseCall (token0 pair) (token1 pair) (venues pair) fqs) E\<rparr>)"
  using assms
  by (simp add: calculateRoundTrips_def forwardLoop_entries reverseLoop_collect Let_def)

lemma returned_elem:
  assumes "r \<in> set (returned (calculateRoundTrips TOKENS gas q pair notional))"
  obtains t0 t1 price a where "TOKENS (token0 pair) = Some t0"
    and "TOKENS (token1 pair) = Some t1" and "priceUSD t0 = Some price" and "0 < price"
    and "parseAmountIn0 notional price (decimals t0) = Some a"
proof (cases "TOKENS (token0 pair)")
  case None
  with assms show ?thesis by (simp add: calculateRoundTrips_def returned_def)
next
  case t0: (Some t0)
  show ?thesis
  proof (cases "TOKENS (token1 pair)")
    case None
    with assms t0 show ?thesis by (simp add: calculateRoundTrips_def returned_def)
  next
    case t1: (Some t1)
    show ?thesis
    proof (cases "priceUSD t0")
      case None
      with assms t0 t1 show ?thesis by (simp add: calculateRoundTrips_def returned_def)
    next
      case price: (Some price)
      show ?thesis
      proof (cases "price \<le> 0")
        case True
        with assms t0 t1 price show ?thesis
          by (simp add: calculateRoundTrips_def returned_def)
      next
        case pos: False
        show ?thesis
        proof (cases "parseAmountIn0 notional price (decimals t0)")
          case None
          with assms t0 t1 price pos show ?thesis
            by (simp add: calculateRoundTrips_def returned_def)
        next
          case (Some a)
          with t0 t1 price pos that show ?thesis by simp
        qed
      qed
    qed
  qed
qed

lemma collectTrips_set:
  "r \<in> set (collectTrips q mk t0 t1 vs fqs E hist) \<Longrightarrow>
   \<exists>ij hist' amountBack. ij \<in> set E \<and> q hist' (reverseCall t0 t1 vs fqs ij) = Inr amountBack
      \<and> r = mk (venue (fqs ! fst ij)) (vs ! snd ij) amountBack"
proof (induction E arbitrary: hist)
  case Nil
  then show ?case by simp
next
  case (Cons ij E)
  from Cons.prems have
    "r \<in> set (case q hist (reverseCall t0 t1 vs fqs ij) of
        Inl msg \<Rightarrow> [] | Inr b \<Rightarrow> [mk (venue (fqs ! fst ij)) (vs ! snd ij) b])
     \<or> r \<in> set (collectTrips q mk t0 t1 vs fqs E (hist @ [reverseCall t0 t1 vs fqs ij]))"
    by simp
  then show ?case
  proof
    assume "r \<in> set (case q hist (reverseCall t0 t1 vs fqs ij) of
        Inl msg \<Rightarrow> [] | Inr b \<Rightarrow> [mk (venue (fqs ! fst ij)) (vs ! snd ij) b])"
    then obtain b where "q hist (reverseCall t0 t1 vs fqs ij) = Inr b"
      and "r = mk (venue (fqs ! fst ij)) (vs ! snd ij) b"
      by (cases "q hist (reverseCall t0 t1 vs fqs ij)") auto
    then show ?thesis by (intro exI [of _ ij] exI [of _ hist] exI [of _ b]) simp
  next
    assume "r \<in> set (collectTrips q mk t0 t1 vs fqs E (hist @ [reverseCall t0 t1 vs fqs ij]))"
    from Cons.IH [OF this] show ?thesis by auto
  qed
qed

lemma roundTrip_figures:
  "roundTrip gas notional dec price a =
     (\<lambda>buy sell amountBack.
        \<lparr>direction = dex buy @ arrow @ dex sell, notionalUSD = notional,
         inUSD = js_mul64 (binary64 (of_int a / 10 ^ dec)) (Num price),
         outUSD = js_mul64 (binary64 (of_int amountBack / 10 ^ dec)) (Num price),
         netUSD =
           js_sub64
             (js_sub64 (js_mul64 (binary64 (of_int amountBack / 10 ^ dec)) (Num price))
                (js_mul64 (binary64 (of_int a / 10 ^ dec)) (Num price)))
             (binary64 gas),
         spreadPct =
           toFixed4 (js_mul64
             (js_div64
                (js_sub64 (js_mul64 (binary64 (of_int amountBack / 10 ^ dec)) (Num price))
                   (js_mul64 (binary64 (of_int a / 10 ^ dec)) (Num price)))
                (js_mul64 (binary64 (of_int a / 10 ^ dec)) (Num price)) (a < 0))
             (Num 100)),
         netPct =
           toFixed4 (js_mul64
             (js_div64
                (js_sub64
                   (js_sub64 (js_mul64 (binary64 (of_int amountBack / 10 ^ dec)) (Num price))
                      (js_mul64 (binary64 (of_int a / 10 ^ dec)) (Num price)))
                   (binary64 gas))
                (js_mul64 (binary64 (of_int a / 10 ^ dec)) (Num price)) (a < 0))
             (Num 100))\<rparr>)"
  by (simp add: fun_eq_iff roundTrip_def usdValue_def Let_def)

lemma spread_of_equal:
  "toFixed4 (js_mul64 (js_div64 (js_sub64 u u) u negz) (Num 100))
     = (if \<exists>v. u = Num v \<and> v \<noteq> 0 then Num 0 else NaN)"
  by (cases u) (simp_all add: binary64_zero toFixedScaled_zero)

lemma reciprocal_forward:
  "i < length vs \<Longrightarrow>
   amountOut (forwardEntries (reciprocalVenues t0) t0 t1 a vs hist ! i) = Some (2 * a)"
  by (simp add: forwardEntries_nth reciprocalVenues_def forwardCall_def)

lemma reciprocal_trip:
  assumes ne: "token0 pair \<noteq> token1 pair"
    and r: "r \<in> set (returned (calculateRoundTrips TOKENS gas
              (reciprocalVenues (token0 pair)) pair notional))"
  obtains t0 price a bv sv where "TOKENS (token0 pair) = Some t0"
    and "priceUSD t0 = Some price" and "0 < price"
    and "parseAmountIn0 notional price (decimals t0) = Some a" and "a \<noteq> 0"
    and "r = roundTrip gas notional (decimals t0) price a bv sv a"
proof -
  let ?q = "reciprocalVenues (token0 pair)"
  from r obtain t0 t1 price a where g: "TOKENS (token0 pair) = Some t0"
    "TOKENS (token1 pair) = Some t1" "priceUSD t0 = Some price" "0 < price"
    "parseAmountIn0 notional price (decimals t0) = Some a"
    by (rule returned_elem)
  let ?fqs = "forwardEntries ?q (token0 pair) (token1 pair) a (venues pair) []"
  let ?n = "length ?fqs"
  from r have "r \<in> set (collectTrips ?q (roundTrip gas notional (decimals t0) price a)
      (token0 pair) (token1 pair) (venues pair) ?fqs
      (filter (eligible ?fqs) (List.product [0..<?n] [0..<?n]))
      (map (forwardCall (token0 pair) (token1 pair) a) (venues pair)))"
    by (simp add: calculateRoundTrips_closed [OF g] returned_def Let_def)
  from collectTrips_set [OF this] obtain ij hist' b where
    ij: "ij \<in> set (filter (eligible ?fqs) (List.product [0..<?n] [0..<?n]))"
    and ans: "?q hist' (reverseCall (token0 pair) (token1 pair) (venues pair) ?fqs ij) = Inr b"
    and rr: "r = roundTrip gas notional (decimals t0) price a
               (venue (?fqs ! fst ij)) (venues pair ! snd ij) b"
    by blast
  from ij have i: "fst ij < length (venues pair)" and el: "eligible ?fqs ij"
    by (auto simp: forwardEntries_length)
  have out: "amountOut (?fqs ! fst ij) = Some (2 * a)"
    using i by (rule reciprocal_forward)
  from el out have a0: "a \<noteq> 0" by (simp add: eligible_def)
  from ans out ne have b: "b = a"
    by (simp add: reciprocalVenues_def reverseCall_def)
  from g(1,3,4,5) a0 rr [unfolded b] show ?thesis by (rule that)
qed

lemma reciprocal_no_spread:
  assumes ne: "token0 pair \<noteq> token1 pair"
    and r: "r \<in> set (returned (calculateRoundTrips TOKENS gas
              (reciprocalVenues (token0 pair)) pair notional))"
  shows "outUSD r = inUSD r
       \<and> spreadPct r = (if \<exists>v. inUSD r = Num v \<and> v \<noteq> 0 then Num 0 else NaN)"
proof -
  from ne r obtain t0 price a bv sv where "TOKENS (token0 pair) = Some t0"
    "priceUSD t0 = Some price" "0 < price"
    "parseAmountIn0 notional price (decimals t0) = Some a" "a \<noteq> 0"
    and "r = roundTrip gas notional (decimals t0) price a bv sv a"
    by (rule reciprocal_trip)
  then show ?thesis
    by (simp add: roundTrip_def Let_def spread_of_equal)
qed

lemma reciprocal_zero_spread:
  assumes ne: "token0 pair \<noteq> token1 pair"
    and r: "r \<in> set (returned (calculateRoundTrips TOKENS gas
              (reciprocalVenues (token0 pair)) pair notional))"
    and t0: "TOKENS (token0 pair) = Some t0" and price: "priceUSD t0 = Some price"
    and lo: "1 / 10 ^ 100 \<le> price" and hi: "price \<le> 10 ^ 100"
  shows "spreadPct r = Num 0"
proof -
  from ne r obtain t0' price' a bv sv where g: "TOKENS (token0 pair) = Some t0'"
    "priceUSD t0' = Some price'" "0 < price'"
    "parseAmountIn0 notional price' (decimals t0') = Some a"
    "a \<noteq> 0" and rr: "r = roundTrip gas notional (decimals t0') price' a bv sv a"
    by (rule reciprocal_trip)
  from g(1,2) t0 price have eq: "t0' = t0" "price' = price" by simp_all
  have "\<exists>v. js_mul64 (binary64 (of_int a / 10 ^ decimals t0)) (Num price) = Num v \<and> v \<noteq> 0"
    using parseAmountIn0_range [OF g(4,5)] lo hi unfolding eq by (rule usd_finite)
  then have "\<exists>v. inUSD r = Num v \<and> v \<noteq> 0"
    by (simp add: rr eq roundTrip_def usdValue_def Let_def)
  with reciprocal_no_spread [OF ne r] show ?thesis by simp
qed

text \<open>Evaluations of the stub pair, computed.\<close>

lemma stub_zeroThenFail:
  "calculateRoundTrips stubTokens (1 / 20) zeroThenFail stubPair 1000 =
     \<lparr>results = Some [],
      forwardQuotes =
        [\<lparr>venue = \<lparr>dex = ''A'', fee = None\<rparr>, amountOut = Some 0, errorText = None\<rparr>,
         \<lparr>venue = \<lparr>dex = ''B'', fee = None\<rparr>, amountOut = None,
          errorText = Some ''execution reverted''\<rparr>],
      quoteCalls =
        [forwardCall ''WETH'' ''USDC'' 500000000000000000 \<lparr>dex = ''A'', fee = None\<rparr>,
         forwardCall ''WETH'' ''USDC'' 500000000000000000 \<lparr>dex = ''B'', fee = None\<rparr>]\<rparr>"
  by code_simp

lemma stub_reciprocal:
  "calculateRoundTrips stubTokens (1 / 20) (reciprocalVenues ''WETH'') stubPair 1000 =
     \<lparr>results = Some
        [\<lparr>direction = ''A'' @ arrow @ ''B'', notionalUSD = 1000, inUSD = Num 1000,
          outUSD = Num 1000, netUSD = Num (- (3602879701896397 / 72057594037927936)),
          spreadPct = Num 0, netPct = Num (- (1 / 200))\<rparr>,
         \<lparr>direction = ''B'' @ arrow @ ''A'', notionalUSD = 1000, inUSD = Num 1000,
          outUSD = Num 1000, netUSD = Num (- (3602879701896397 / 72057594037927936)),
          spreadPct = Num 0, netPct = Num (- (1 / 200))\<rparr>],
      forwardQuotes =
        [\<lparr>venue = \<lparr>dex = ''A'', fee = None\<rparr>, amountOut = Some 1000000000000000000,
          errorText = None\<rparr>,
         \<lparr>venue = \<lparr>dex = ''B'', fee = None\<rparr>, amountOut = Some 1000000000000000000,
          errorText = None\<rparr>],
      quoteCalls =
        [forwardCall ''WETH'' ''USDC'' 500000000000000000 \<lparr>dex = ''A'', fee = None\<rparr>,
         forwardCall ''WETH'' ''USDC'' 500000000000000000 \<lparr>dex = ''B'', fee = None\<rparr>,
         \<lparr>callVenue = \<lparr>dex = ''B'', fee = None\<rparr>, tokenIn = ''USDC'', tokenOut = ''WETH'',
          amountIn = 1000000000000000000\<rparr>,
         \<lparr>callVenue = \<lparr>dex = ''A'', fee = None\<rparr>, tokenIn = ''USDC'', tokenOut = ''WETH'',
          amountIn = 1000000000000000000\<rparr>]\<rparr>"
  by code_simp

lemma stub_skewed_percent:
  "results (calculateRoundTrips stubTokens (1 / 20) (skewedVenues ''WETH'' 5000000000000000)
      stubPair 1000) =
     Some
       [\<lparr>direction = ''A'' @ arrow @ ''B'', notionalUSD = 1000, inUSD = Num 1000,
         outUSD = Num 1010, netUSD = Num (2800676018271027 / 281474976710656),
         spreadPct = Num 1, netPct = Num (199 / 200)\<rparr>,
        \<lparr>direction = ''B'' @ arrow @ ''A'', notionalUSD = 1000, inUSD = Num 1000,
         outUSD = Num 1000, netUSD = Num (- (3602879701896397 / 72057594037927936)),
         spreadPct = Num 0, netPct = Num (- (1 / 200))\<rparr>]"
  by code_simp

lemma stub_skewed_dust:
  "results (calculateRoundTrips stubTokens (1 / 20) (skewedVenues ''WETH'' 250000000000)
      stubPair 1000) =
     Some
       [\<lparr>direction = ''A'' @ arrow @ ''B'', notionalUSD = 1000, inUSD = Num 1000,
         outUSD = Num (549756088765907 / 549755813888),
         netUSD = Num (- (3566850904870093 / 72057594037927936)),
         spreadPct = Num (1 / 10000), netPct = Num (- (49 / 10000))\<rparr>,
        \<lparr>direction = ''B'' @ arrow @ ''A'', notionalUSD = 1000, inUSD = Num 1000,
         outUSD = Num 1000, netUSD = Num (- (3602879701896397 / 72057594037927936)),
         spreadPct = Num 0, netPct = Num (- (1 / 200))\<rparr>]"
  by code_simp

subsection \<open>Profit figures\<close>

text \<open>
  C5. For every evaluation that passes its guards, the returned array holds, for each
  ordered pair \<open>(i, j)\<close> of distinct venues with a usable forward output whose reverse
  quote answered \<open>amountBack\<close>, in order, the record with
  \<open>inUSD = Number(amountIn0 / 10^decimals) * price\<close>,
  \<open>outUSD = Number(amountBack / 10^decimals) * price\<close>,
  \<open>netUSD = outUSD - inUSD - gas\<close>, and as \<open>spreadPct\<close> and \<open>netPct\<close> the four-decimal
  renderings of \<open>(outUSD - inUSD) / inUSD * 100\<close> and \<open>netUSD / inUSD * 100\<close>, every
  operation in binary64. With reciprocal, fee-free venues (selling asset 0 doubles the
  native amount, selling asset 1 halves it) every returned round trip has
  \<open>outUSD = inUSD\<close> and, whatever the notional, a spread of exactly 0 for every
  reference price between \<open>10^(-100)\<close> and \<open>10^100\<close>; in general the spread is 0 when
  \<open>inUSD\<close> is a finite number other than zero, and \<^verbatim>\<open>NaN\<close> when the product of amount
  and price has left the binary64 range.
\<close>

theorem calculateRoundTrips_metrics:
  assumes "TOKENS (token0 pair) = Some t0" and "TOKENS (token1 pair) = Some t1"
    and "priceUSD t0 = Some price" and "0 < price"
    and "parseAmountIn0 notional price (decimals t0) = Some a"
  shows "let ev = calculateRoundTrips TOKENS gas q pair notional;
             vs = venues pair; n = length vs;
             fqs = forwardQuotes ev;
             usd = (\<lambda>amount. js_mul64 (binary64 (of_int amount / 10 ^ decimals t0)) (Num price));
             pct = (\<lambda>x. toFixed4 (js_mul64 (js_div64 x (usd a) (a < 0)) (Num 100)))
         in results ev =
              Some (collectTrips q
                (\<lambda>buy sell amountBack.
                   \<lparr>direction = dex buy @ arrow @ dex sell, notionalUSD = notional,
                    inUSD = usd a, outUSD = usd amountBack,
                    netUSD = js_sub64 (js_sub64 (usd amountBack) (usd a)) (binary64 gas),
                    spreadPct = pct (js_sub64 (usd amountBack) (usd a)),
                    netPct =
                      pct (js_sub64 (js_sub64 (usd amountBack) (usd a)) (binary64 gas))\<rparr>)
                (token0 pair) (token1 pair) vs fqs
                (filter (eligible fqs) (List.product [0..<n] [0..<n]))
                (map (forwardCall (token0 pair) (token1 pair) a) vs))
          \<and> (token0 pair \<noteq> token1 pair \<longrightarrow>
               (\<forall>r \<in> set (returned (calculateRoundTrips TOKENS gas
                             (reciprocalVenues (token0 pair)) pair notional)).
                  outUSD r = inUSD r
                  \<and> spreadPct r = (if \<exists>v. inUSD r = Num v \<and> v \<noteq> 0 then Num 0 else NaN)
                  \<and> (1 / 10 ^ 100 \<le> price \<and> price \<le> 10 ^ 100 \<longrightarrow> spreadPct r = Num 0)))"
proof -
  let ?ev = "calculateRoundTrips TOKENS gas q pair notional"
  have fq: "forwardQuotes ?ev =
      forwardEntries q (token0 pair) (token1 pair) a (venues pair) []"
    by (simp add: calculateRoundTrips_closed [OF assms] Let_def)
  have rs: "results ?ev =
      Some (collectTrips q (roundTrip gas notional (decimals t0) price a)
        (token0 pair) (token1 pair) (venues pair) (forwardQuotes ?ev)
        (filter (eligible (forwardQuotes ?ev))
           (List.product [0..<length (venues pair)] [0..<length (venues pair)]))
        (map (forwardCall (token0 pair) (token1 pair) a) (venues pair)))"
    unfolding fq
    by (simp add: calculateRoundTrips_closed [OF assms] Let_def forwardEntries_length)
  have rc: "token0 pair \<noteq> token1 pair \<longrightarrow>
      (\<forall>r \<in> set (returned (calculateRoundTrips TOKENS gas
                    (reciprocalVenues (token0 pair)) pair notional)).
         outUSD r = inUSD r
         \<and> spreadPct r = (if \<exists>v. inUSD r = Num v \<and> v \<noteq> 0 then Num 0 else NaN)
         \<and> (1 / 10 ^ 100 \<le> price \<and> price \<le> 10 ^ 100 \<longrightarrow> spreadPct r = Num 0))"
    using reciprocal_no_spread [of pair _ TOKENS gas notional]
      reciprocal_zero_spread [of pair _ TOKENS gas notional t0 price] assms(1,3)
    by blast
  show ?thesis
    unfolding Let_def
  proof (rule conjI)
    show "results ?ev =
        Some (collectTrips q
          (\<lambda>buy sell amountBack.
             \<lparr>direction = dex buy @ arrow @ dex sell, notionalUSD = notional,
              inUSD = js_mul64 (binary64 (of_int a / 10 ^ decimals t0)) (Num price),
              outUSD = js_mul64 (binary64 (of_int amountBack / 10 ^ decimals t0)) (Num price),
              netUSD =
                js_sub64
                  (js_sub64
                     (js_mul64 (binary64 (of_int amountBack / 10 ^ decimals t0)) (Num price))
                     (js_mul64 (binary64 (of_int a / 10 ^ decimals t0)) (Num price)))
                  (binary64 gas),
              spreadPct =
                toFixed4 (js_mul64
                  (js_div64
                     (js_sub64
                        (js_mul64 (binary64 (of_int amountBack / 10 ^ decimals t0)) (Num price))
                        (js_mul64 (binary64 (of_int a / 10 ^ decimals t0)) (Num price)))
                     (js_mul64 (binary64 (of_int a / 10 ^ decimals t0)) (Num price)) (a < 0))
                  (Num 100)),
              netPct =
                toFixed4 (js_mul64
                  (js_div64
                     (js_sub64
                        (js_sub64
                           (js_mul64 (binary64 (of_int amountBack / 10 ^ decimals t0)) (Num price))
                           (js_mul64 (binary64 (of_int a / 10 ^ decimals t0)) (Num price)))
                        (binary64 gas))
                     (js_mul64 (binary64 (of_int a / 10 ^ decimals t0)) (Num price)) (a < 0))
                  (Num 100))\<rparr>)
          (token0 pair) (token1 pair) (venues pair) (forwardQuotes ?ev)
          (filter (eligible (forwardQuotes ?ev))
             (List.product [0..<length (venues pair)] [0..<length (venues pair)]))
          (map (forwardCall (token0 pair) (token1 pair) a) (venues pair)))"
      unfolding rs roundTrip_figures ..
  next
    show "token0 pair \<noteq> token1 pair \<longrightarrow>
      (\<forall>r \<in> set (returned (calculateRoundTrips TOKENS gas
                    (reciprocalVenues (token0 pair)) pair notional)).
         outUSD r = inUSD r
         \<and> spreadPct r = (if \<exists>v. inUSD r = Num v \<and> v \<noteq> 0 then Num 0 else NaN)
         \<and> (1 / 10 ^ 100 \<le> price \<and> price \<le> 10 ^ 100 \<longrightarrow> spreadPct r = Num 0))"
      by (rule rc)
  qed
qed

text \<open>
  Three evaluations of the stub pair at 1000 USD, price 2000, 18 decimals and a gas
  cost of 0.05. Reciprocal venues: both round trips have a spread of 0. Venue \<open>B\<close>
  paying one percent more: the trip selling at \<open>B\<close> has \<open>outUSD = 1010\<close>, a spread of
  \<^verbatim>\<open>1.0000\<close> and a net of \<^verbatim>\<open>0.9950\<close>. Venue \<open>B\<close> paying \<open>2.5 * 10^11\<close> native units
  more: \<open>outUSD\<close> is \<open>1000.0005000000001\<dots>\<close> and the net percentage
  \<open>-0.004949999\<dots>\<close> is printed as \<^verbatim>\<open>-0.0049\<close>.
\<close>

theorem calculateRoundTrips_metrics_witness:
  "stubTokens (token0 stubPair) = Some \<lparr>decimals = 18, priceUSD = Some 2000\<rparr>
   \<and> parseAmountIn0 1000 2000 18 = Some 500000000000000000
   \<and> token0 stubPair \<noteq> token1 stubPair
   \<and> (1 :: rat) / 10 ^ 100 \<le> 2000 \<and> (2000 :: rat) \<le> 10 ^ 100
   \<and> map spreadPct (returned (calculateRoundTrips stubTokens (1 / 20)
        (reciprocalVenues ''WETH'') stubPair 1000)) = [Num 0, Num 0]
   \<and> results (calculateRoundTrips stubTokens (1 / 20) (skewedVenues ''WETH'' 5000000000000000)
        stubPair 1000) =
       Some
         [\<lparr>direction = ''A'' @ arrow @ ''B'', notionalUSD = 1000, inUSD = Num 1000,
           outUSD = Num 1010, netUSD = Num (2800676018271027 / 281474976710656),
           spreadPct = Num 1, netPct = Num (199 / 200)\<rparr>,
          \<lparr>direction = ''B'' @ arrow @ ''A'', notionalUSD = 1000, inUSD = Num 1000,
           outUSD = Num 1000, netUSD = Num (- (3602879701896397 / 72057594037927936)),
           spreadPct = Num 0, netPct = Num (- (1 / 200))\<rparr>]
   \<and> map netPct (returned (calculateRoundTrips stubTokens (1 / 20)
        (skewedVenues ''WETH'' 250000000000) stubPair 1000))
        = [Num (- (49 / 10000)), Num (- (1 / 200))]"
proof -
  have h1: "stubTokens (token0 stubPair) = Some \<lparr>decimals = 18, priceUSD = Some 2000\<rparr>"
    by (simp add: stubTokens_def stubPair_def)
  have h2: "stubTokens (token1 stubPair) = Some \<lparr>decimals = 6, priceUSD = Some 1\<rparr>"
    by (simp add: stubTokens_def stubPair_def)
  have h3: "priceUSD \<lparr>decimals = 18, priceUSD = Some 2000\<rparr> = Some 2000"
    by simp
  have h4: "(0 :: rat) < 2000"
    by simp
  have amt: "parseAmountIn0 1000 2000 18 = Some 500000000000000000"
    by code_simp
  then have h5: "parseAmountIn0 1000 2000 (decimals \<lparr>decimals = 18, priceUSD = Some 2000\<rparr>)
      = Some 500000000000000000"
    by simp
  have ne: "token0 stubPair \<noteq> token1 stubPair"
    by (simp add: stubPair_def)
  have c1: "map spreadPct (returned (calculateRoundTrips stubTokens (1 / 20)
        (reciprocalVenues ''WETH'') stubPair 1000)) = [Num 0, Num 0]"
    by (simp add: stub_reciprocal returned_def)
  have c2: "map netPct (returned (calculateRoundTrips stubTokens (1 / 20)
        (skewedVenues ''WETH'' 250000000000) stubPair 1000))
        = [Num (- (49 / 10000)), Num (- (1 / 200))]"
    by (simp add: stub_skewed_dust returned_def)
  have pb: "(1 :: rat) / 10 ^ 100 \<le> 2000" "(2000 :: rat) \<le> 10 ^ 100"
    by simp_all
  from calculateRoundTrips_metrics [OF h1 h2 h3 h4 h5, of "1 / 20"
      "skewedVenues ''WETH'' 5000000000000000"]
    h1 amt ne pb c1 c2 stub_skewed_percent
  show ?thesis by blast
qed

subsection \<open>Which quotes are requested\<close>

text \<open>
  C6, as claimed, fails where a forward quote succeeds with the amount 0: the entry is
  kept with output 0, but \<^verbatim>\<open>if (!buyQ.amountOut) continue\<close> treats \<^verbatim>\<open>0n\<close> like
  \<^verbatim>\<open>null\<close>, so no reverse quote is requested for that buy venue. Here venue A answers
  0 and venue B throws: the evaluation makes the two forward calls and nothing else.
\<close>

theorem calculateRoundTrips_zero_output_counterexample:
  "forwardQuotes (calculateRoundTrips stubTokens (1 / 20) zeroThenFail stubPair 1000) =
     [\<lparr>venue = \<lparr>dex = ''A'', fee = None\<rparr>, amountOut = Some 0, errorText = None\<rparr>,
      \<lparr>venue = \<lparr>dex = ''B'', fee = None\<rparr>, amountOut = None,
       errorText = Some ''execution reverted''\<rparr>]
   \<and> quoteCalls (calculateRoundTrips stubTokens (1 / 20) zeroThenFail stubPair 1000) =
     [forwardCall ''WETH'' ''USDC'' 500000000000000000 \<lparr>dex = ''A'', fee = None\<rparr>,
      forwardCall ''WETH'' ''USDC'' 500000000000000000 \<lparr>dex = ''B'', fee = None\<rparr>]
   \<and> results (calculateRoundTrips stubTokens (1 / 20) zeroThenFail stubPair 1000) = Some []"
  by (simp add: stub_zeroThenFail)

text \<open>
  C6, amended. For every evaluation that passes its guards (both tokens known, a
  positive price for the first, an input amount that parses): \<^verbatim>\<open>forwardQuotes\<close> has
  one entry per configured venue, in order, whose output is \<^verbatim>\<open>null\<close> exactly when
  that venue's forward quote threw; after the forward calls, a reverse quote is
  requested once for each ordered pair \<open>(i, j)\<close> of distinct venues whose venue \<open>i\<close> has
  a forward output that is present and not zero, in row-major order, at venue \<open>j\<close>
  with that output as input, and for no other pair; and the returned array holds one
  round trip for each of these reverse quotes that answered, a reverse quote that
  throws dropping only its own pair.
\<close>

theorem calculateRoundTrips_quotes:
  assumes "TOKENS (token0 pair) = Some t0" and "TOKENS (token1 pair) = Some t1"
    and "priceUSD t0 = Some price" and "0 < price"
    and "parseAmountIn0 notional price (decimals t0) = Some a"
  shows "let ev = calculateRoundTrips TOKENS gas q pair notional;
             vs = venues pair; n = length vs;
             fwd = forwardCall (token0 pair) (token1 pair) a;
             fqs = forwardQuotes ev;
             E = filter (eligible fqs) (List.product [0..<n] [0..<n])
         in map venue fqs = vs
          \<and> (\<forall>k<n. amountOut (fqs ! k) =
                (case q (map fwd (take k vs)) (fwd (vs ! k)) of
                   Inl msg \<Rightarrow> None | Inr out \<Rightarrow> Some out))
          \<and> distinct E
          \<and> set E = {(i, j). i < n \<and> j < n \<and> i \<noteq> j
                        \<and> (\<exists>out. amountOut (fqs ! i) = Some out \<and> out \<noteq> 0)}
          \<and> quoteCalls ev = map fwd vs @ map (reverseCall (token0 pair) (token1 pair) vs fqs) E
          \<and> results ev = Some (collectTrips q (roundTrip gas notional (decimals t0) price a)
                (token0 pair) (token1 pair) vs fqs E (map fwd vs))"
proof -
  let ?ev = "calculateRoundTrips TOKENS gas q pair notional"
  let ?vs = "venues pair"
  let ?fwd = "forwardCall (token0 pair) (token1 pair) a"
  let ?fqs = "forwardEntries q (token0 pair) (token1 pair) a ?vs []"
  let ?E = "filter (eligible ?fqs) (List.product [0..<length ?vs] [0..<length ?vs])"
  have fq: "forwardQuotes ?ev = ?fqs"
    by (simp add: calculateRoundTrips_closed [OF assms] Let_def)
  have qc: "quoteCalls ?ev =
      map ?fwd ?vs @ map (reverseCall (token0 pair) (token1 pair) ?vs ?fqs) ?E"
    by (simp add: calculateRoundTrips_closed [OF assms] Let_def forwardEntries_length)
  have rs: "results ?ev = Some (collectTrips q (roundTrip gas notional (decimals t0) price a)
      (token0 pair) (token1 pair) ?vs ?fqs ?E (map ?fwd ?vs))"
    by (simp add: calculateRoundTrips_closed [OF assms] Let_def forwardEntries_length)
  show ?thesis
    unfolding Let_def fq
  proof (intro conjI allI impI)
    show "map venue ?fqs = ?vs" by (rule forwardEntries_venues)
  next
    fix k assume "k < length ?vs"
    then show "amountOut (?fqs ! k) =
        (case q (map ?fwd (take k ?vs)) (?fwd (?vs ! k)) of Inl msg \<Rightarrow> None | Inr out \<Rightarrow> Some out)"
      using forwardEntries_nth [of k ?vs q "token0 pair" "token1 pair" a "[]"] by simp
  next
    show "distinct ?E" by (rule eligible_distinct)
  next
    show "set ?E = {(i, j). i < length ?vs \<and> j < length ?vs \<and> i \<noteq> j
        \<and> (\<exists>out. amountOut (?fqs ! i) = Some out \<and> out \<noteq> 0)}"
      by (rule eligible_set)
  next
    show "quoteCalls ?ev =
        map ?fwd ?vs @ map (reverseCall (token0 pair) (token1 pair) ?vs ?fqs) ?E"
      by (rule qc)
  next
    show "results ?ev = Some (collectTrips q (roundTrip gas notional (decimals t0) price a)
        (token0 pair) (token1 pair) ?vs ?fqs ?E (map ?fwd ?vs))"
      by (rule rs)
  qed
qed

theorem calculateRoundTrips_quotes_witness:
  "stubTokens (token0 stubPair) = Some \<lparr>decimals = 18, priceUSD = Some 2000\<rparr>
   \<and> parseAmountIn0 1000 2000 18 = Some 500000000000000000
   \<and> map venue (forwardQuotes (calculateRoundTrips stubTokens (1 / 20)
        (reciprocalVenues ''WETH'') stubPair 1000)) = [\<lparr>dex = ''A'', fee = None\<rparr>, \<lparr>dex = ''B'', fee = None\<rparr>]
   \<and> quoteCalls (calculateRoundTrips stubTokens (1 / 20)
        (reciprocalVenues ''WETH'') stubPair 1000) =
        [forwardCall ''WETH'' ''USDC'' 500000000000000000 \<lparr>dex = ''A'', fee = None\<rparr>,
         forwardCall ''WETH'' ''USDC'' 500000000000000000 \<lparr>dex = ''B'', fee = None\<rparr>,
         \<lparr>callVenue = \<lparr>dex = ''B'', fee = None\<rparr>, tokenIn = ''USDC'', tokenOut = ''WETH'',
          amountIn = 1000000000000000000\<rparr>,
         \<lparr>callVenue = \<lparr>dex = ''A'', fee = None\<rparr>, tokenIn = ''USDC'', tokenOut = ''WETH'',
          amountIn = 1000000000000000000\<rparr>]
   \<and> map direction (returned (calculateRoundTrips stubTokens (1 / 20)
        (reciprocalVenues ''WETH'') stubPair 1000)) = [''A'' @ arrow @ ''B'', ''B'' @ arrow @ ''A'']"
proof -
  have h1: "stubTokens (token0 stubPair) = Some \<lparr>decimals = 18, priceUSD = Some 2000\<rparr>"
    by (simp add: stubTokens_def stubPair_def)
  have h2: "stubTokens (token1 stubPair) = Some \<lparr>decimals = 6, priceUSD = Some 1\<rparr>"
    by (simp add: stubTokens_def stubPair_def)
  have h3: "priceUSD \<lparr>decimals = 18, priceUSD = Some 2000\<rparr> = Some 2000"
    by simp
  have h4: "(0 :: rat) < 2000"
    by simp
  have amt: "parseAmountIn0 1000 2000 18 = Some 500000000000000000"
    by code_simp
  then have h5: "parseAmountIn0 1000 2000 (decimals \<lparr>decimals = 18, priceUSD = Some 2000\<rparr>)
      = Some 500000000000000000"
    by simp
  have c1: "map venue (forwardQuotes (calculateRoundTrips stubTokens (1 / 20)
        (reciprocalVenues ''WETH'') stubPair 1000)) = [\<lparr>dex = ''A'', fee = None\<rparr>, \<lparr>dex = ''B'', fee = None\<rparr>]"
    by (simp add: stub_reciprocal)
  have c2: "quoteCalls (calculateRoundTrips stubTokens (1 / 20)
        (reciprocalVenues ''WETH'') stubPair 1000) =
        [forwardCall ''WETH'' ''USDC'' 500000000000000000 \<lparr>dex = ''A'', fee = None\<rparr>,
         forwardCall ''WETH'' ''USDC'' 500000000000000000 \<lparr>dex = ''B'', fee = None\<rparr>,
         \<lparr>callVenue = \<lparr>dex = ''B'', fee = None\<rparr>, tokenIn = ''USDC'', tokenOut = ''WETH'',
          amountIn = 1000000000000000000\<rparr>,
         \<lparr>callVenue = \<lparr>dex = ''A'', fee = None\<rparr>, tokenIn = ''USDC'', tokenOut = ''WETH'',
          amountIn = 1000000000000000000\<rparr>]"
    by (simp add: stub_reciprocal)
  have c3: "map direction (returned (calculateRoundTrips stubTokens (1 / 20)
        (reciprocalVenues ''WETH'') stubPair 1000)) = [''A'' @ arrow @ ''B'', ''B'' @ arrow @ ''A'']"
    by (simp add: stub_reciprocal returned_def)
  from calculateRoundTrips_quotes [OF h1 h2 h3 h4 h5, of "1 / 20" "reciprocalVenues ''WETH''"]
    h1 amt c1 c2 c3
  show ?thesis by blast
qed

section \<open>The persistence state machine\<close>

subsection \<open>Keys\<close>

text \<open>
  The tracker is keyed by the string \<^verbatim>\<open>pairName_direction_notional\<close>. Where neither
  the pair name nor the direction contains an underscore, the string determines the
  triple, so an entry per key is an entry per (pair, direction, notional); two
  triples that print alike would share one entry.
\<close>

lemma digit_char_eq: "a < 10 \<Longrightarrow> b < 10 \<Longrightarrow> (char_of (48 + a) :: char) = char_of (48 + b) \<Longrightarrow> a = b"
  for a b :: nat
proof -
  assume a: "a < 10" and b: "b < 10" and eq: "(char_of (48 + a) :: char) = char_of (48 + b)"
  from eq have "(of_char (char_of (48 + a) :: char) :: nat) = of_char (char_of (48 + b) :: char)"
    by simp
  with a b show "a = b" by (simp add: of_char_of)
qed

lemma digit_char_not_underscore: "a < 10 \<Longrightarrow> (char_of (48 + a) :: char) \<noteq> CHR ''_''"
  for a :: nat
proof
  assume a: "a < 10" and eq: "(char_of (48 + a) :: char) = CHR ''_''"
  from eq have "(of_char (char_of (48 + a) :: char) :: nat) = of_char CHR ''_''"
    by simp
  with a show False by (simp add: of_char_of)
qed

lemma decimalDigits_no_underscore: "CHR ''_'' \<notin> set (decimalDigits n)"
proof (induction n rule: decimalDigits.induct)
  case (1 n)
  show ?case
  proof (cases "n < 10")
    case True
    then show ?thesis
      using digit_char_not_underscore [of n] by (subst decimalDigits.simps) auto
  next
    case False
    with "1.IH" show ?thesis
      using digit_char_not_underscore [of "n mod 10"] by (subst decimalDigits.simps) auto
  qed
qed

lemma decimalDigits_nonempty: "decimalDigits n \<noteq> []"
  by (subst decimalDigits.simps) simp

lemma decimalDigits_inj: "decimalDigits m = decimalDigits n \<Longrightarrow> m = n"
proof (induction m arbitrary: n rule: decimalDigits.induct)
  case (1 m)
  show ?case
  proof (cases "m < 10")
    case m: True
    show ?thesis
    proof (cases "n < 10")
      case True
      with m "1.prems" show ?thesis
        using digit_char_eq [of m n]
        by (simp add: decimalDigits.simps [of m] decimalDigits.simps [of n])
    next
      case False
      with m "1.prems" decimalDigits_nonempty [of "n div 10"] show ?thesis
        by (simp add: decimalDigits.simps [of m] decimalDigits.simps [of n])
    qed
  next
    case m: False
    show ?thesis
    proof (cases "n < 10")
      case True
      with m "1.prems" decimalDigits_nonempty [of "m div 10"] show ?thesis
        by (simp add: decimalDigits.simps [of m] decimalDigits.simps [of n])
    next
      case False
      with m "1.prems" have d: "decimalDigits (m div 10) = decimalDigits (n div 10)"
        and c: "(char_of (48 + m mod 10) :: char) = char_of (48 + n mod 10)"
        by (simp_all add: decimalDigits.simps [of m] decimalDigits.simps [of n])
      from "1.IH" [OF m d] have "m div 10 = n div 10" .
      moreover from c have "m mod 10 = n mod 10"
        using digit_char_eq [of "m mod 10" "n mod 10"] by simp
      ultimately show ?thesis by (metis div_mult_mod_eq)
    qed
  qed
qed

lemma split_at_first:
  "c \<notin> set xs \<Longrightarrow> c \<notin> set xs' \<Longrightarrow> xs @ c # ys = xs' @ c # ys' \<Longrightarrow> xs = xs' \<and> ys = ys'"
proof (induction xs arbitrary: xs')
  case Nil
  then show ?case by (cases xs') auto
next
  case (Cons x xs)
  then show ?case by (cases xs') auto
qed

lemma spikeKey_inj:
  assumes "CHR ''_'' \<notin> set p1" and "CHR ''_'' \<notin> set d1"
    and "CHR ''_'' \<notin> set p2" and "CHR ''_'' \<notin> set d2"
    and "spikeKey p1 d1 n1 = spikeKey p2 d2 n2"
  shows "p1 = p2 \<and> d1 = d2 \<and> n1 = n2"
proof -
  from assms(5) have "p1 @ CHR ''_'' # (d1 @ CHR ''_'' # decimalDigits n1)
      = p2 @ CHR ''_'' # (d2 @ CHR ''_'' # decimalDigits n2)"
    by (simp add: spikeKey_def)
  from split_at_first [OF assms(1) assms(3) this]
  have p: "p1 = p2"
    and r: "d1 @ CHR ''_'' # decimalDigits n1 = d2 @ CHR ''_'' # decimalDigits n2"
    by simp_all
  from split_at_first [OF assms(2) assms(4) r]
  have "d1 = d2" and "decimalDigits n1 = decimalDigits n2"
    by simp_all
  with p decimalDigits_inj [of n1 n2] show ?thesis by simp
qed

subsection \<open>Runs\<close>

lemma js_max_above:
  assumes "js_ge a (Num c)" and "js_ge b (Num c)"
  shows "js_ge (js_max a b) (Num c)" and "js_max a b = a \<or> js_max a b = b"
    and "js_ge (js_max a b) a" and "js_ge (js_max a b) b"
  using assms by (cases a; cases b; simp add: max_def; fail)+

lemma js_ge_max_trans:
  assumes "js_ge m x" and "js_ge b (Num c)"
  shows "js_ge (js_max m b) x"
  using assms by (cases m; cases b; cases x; simp add: max_def)

lemma js_ge_refl_above: "js_ge a (Num c) \<Longrightarrow> js_ge a a"
  by (cases a) simp_all

lemma observe_other_key:
  assumes "obsKey ob \<noteq> k"
  shows "spikeTracker (observe s ob) k = spikeTracker s k"
    and "filter (\<lambda>ev. evKey ev = k) (console (observe s ob)) = filter (\<lambda>ev. evKey ev = k) (console s)"
  using assms
  by (auto simp: observe_def trackPersistence_def obsKey_def evKey_def Let_def
      split: option.splits)

lemma observe_above:
  assumes "obsKey ob = k" and "aboveThreshold ob"
  shows "console (observe s ob) = console s"
    and "spikeTracker (observe s ob) k =
      Some (case spikeTracker s k of
              None \<Rightarrow> \<lparr>startBlock = obsBlock ob, count = 1, maxSpread = obsSpread ob,
                        startTime = obsNow ob\<rparr>
            | Some e \<Rightarrow> e\<lparr>count := count e + 1, maxSpread := js_max (maxSpread e) (obsSpread ob)\<rparr>)"
  using assms
  by (auto simp: observe_def trackPersistence_def obsKey_def aboveThreshold_def Let_def
      split: option.splits)

lemma observe_below:
  assumes "obsKey ob = k" and "\<not> aboveThreshold ob"
  shows "spikeTracker (observe s ob) k = None"
    and "console (observe s ob) = console s @
      (case spikeTracker s k of
         None \<Rightarrow> []
       | Some e \<Rightarrow>
           if 2 \<le> count e
           then [\<lparr>evPair = obsPair ob, evDirection = obsDirection ob, duration = count e,
                  evMaxSpread = maxSpread e, evNotional = obsNotional ob,
                  wallDuration = toFixedScaled (of_int (obsNow ob - startTime e) / 1000) 0\<rparr>]
           else [])"
  using assms
  by (auto simp: observe_def trackPersistence_def obsKey_def aboveThreshold_def Let_def
      split: option.splits)

lemma observe_idle_below:
  assumes "spikeTracker s (obsKey ob) = None" and "\<not> aboveThreshold ob"
  shows "observe s ob = s"
  using assms
  by (simp add: observe_def trackPersistence_def obsKey_def aboveThreshold_def Let_def
      fun_upd_idem)

lemma arb_idle_below:
  assumes "arbSpikeTracker s (pairName @ ''_'' @ dir) = None" and "\<not> js_ge spread (Num (1 / 2))"
  shows "arbTrackPersistence pairName dir spread blk s = s"
  using assms
  by (simp add: arbTrackPersistence_def Let_def fun_upd_idem)

lemma observeAll_idle:
  assumes "spikeTracker s = Map.empty" and "\<forall>ob \<in> set obs. \<not> aboveThreshold ob"
  shows "observeAll obs s = s"
  using assms unfolding observeAll_def
  by (induction obs rule: rev_induct) (simp_all add: observe_idle_below)

text \<open>
  The invariant of a run: while every observation of the key \<open>k\<close> is above the
  threshold, no event for \<open>k\<close> is written, and the entry counts the run, remembers
  where it started and holds a maximum of its spreads.
\<close>

lemma run_invariant:
  assumes idle: "spikeTracker s k = None"
    and above: "\<forall>ob \<in> set obs. obsKey ob = k \<longrightarrow> aboveThreshold ob"
  shows "filter (\<lambda>ev. evKey ev = k) (console (observeAll obs s))
           = filter (\<lambda>ev. evKey ev = k) (console s)
       \<and> (filter (\<lambda>ob. obsKey ob = k) obs = [] \<longrightarrow> spikeTracker (observeAll obs s) k = None)
       \<and> (\<forall>first rest. filter (\<lambda>ob. obsKey ob = k) obs = first # rest \<longrightarrow>
              (\<exists>e. spikeTracker (observeAll obs s) k = Some e
                 \<and> count e = Suc (length rest)
                 \<and> startBlock e = obsBlock first \<and> startTime e = obsNow first
                 \<and> maxSpread e \<in> obsSpread ` set (first # rest)
                 \<and> (\<forall>ob \<in> set (first # rest). js_ge (maxSpread e) (obsSpread ob))))"
  using above
proof (induction obs rule: rev_induct)
  case Nil
  show ?case using idle by (simp add: observeAll_def)
next
  case (snoc ob obs)
  let ?s1 = "observeAll obs s"
  have step: "observeAll (obs @ [ob]) s = observe ?s1 ob"
    by (simp add: observeAll_def)
  from snoc.prems have prev: "\<forall>ob \<in> set obs. obsKey ob = k \<longrightarrow> aboveThreshold ob"
    by simp
  note IH = snoc.IH [OF prev]
  show ?case
  proof (cases "obsKey ob = k")
    case False
    with IH show ?thesis
      by (simp add: step observe_other_key)
  next
    case True
    with snoc.prems have ab: "aboveThreshold ob" by simp
    then have ge: "js_ge (obsSpread ob) (Num (3 / 10))" by (simp add: aboveThreshold_def)
    have con: "console (observe ?s1 ob) = console ?s1"
      using True ab by (rule observe_above)
    show ?thesis
    proof (cases "filter (\<lambda>ob. obsKey ob = k) obs")
      case Nil
      with IH have "spikeTracker ?s1 k = None" by simp
      with IH True ab ge Nil show ?thesis
        by (simp add: step con observe_above(2) [OF True ab] js_ge_refl_above)
    next
      case (Cons first rest)
      with IH obtain e where e: "spikeTracker ?s1 k = Some e" "count e = Suc (length rest)"
        "startBlock e = obsBlock first" "startTime e = obsNow first"
        "maxSpread e \<in> obsSpread ` set (first # rest)"
        "\<forall>ob \<in> set (first # rest). js_ge (maxSpread e) (obsSpread ob)"
        by auto
      have allab: "\<forall>x \<in> set (first # rest). js_ge (obsSpread x) (Num (3 / 10))"
      proof
        fix x assume "x \<in> set (first # rest)"
        then have "x \<in> set (filter (\<lambda>ob. obsKey ob = k) obs)" by (simp add: Cons)
        then have "x \<in> set obs" and "obsKey x = k" by simp_all
        with prev show "js_ge (obsSpread x) (Num (3 / 10))" by (simp add: aboveThreshold_def)
      qed
      from e(5) allab have mge: "js_ge (maxSpread e) (Num (3 / 10))" by auto
      have m1: "js_max (maxSpread e) (obsSpread ob) \<in> obsSpread ` set (first # rest @ [ob])"
        using js_max_above(2) [OF mge ge] e(5) by auto
      have m2: "\<forall>x \<in> set (first # rest @ [ob]).
          js_ge (js_max (maxSpread e) (obsSpread ob)) (obsSpread x)"
        using e(6) js_ge_max_trans [OF _ ge] js_max_above(4) [OF mge ge] by auto
      from IH True e m1 m2 Cons show ?thesis
        by (simp add: step con observe_above(2) [OF True ab])
    qed
  qed
qed

lemma arbObserveAll_idle:
  assumes "arbSpikeTracker s = Map.empty"
    and "\<forall>ob \<in> set obs. \<not> js_ge (fst (snd (snd ob))) (Num (1 / 2))"
  shows "arbObserveAll obs s = s"
  using assms unfolding arbObserveAll_def
  by (induction obs rule: rev_induct) (auto simp: arb_idle_below)

text \<open>
  C9. In both loggers a call with a spread below the threshold (or \<^verbatim>\<open>NaN\<close>) for a
  key without an entry returns the state it was given: no console line, no counter
  touched, the same tracker map. So from an empty tracker any sequence of such calls,
  for any keys, leaves the whole state as it was.
\<close>

theorem trackPersistence_idle_noop:
  "(spikeTracker s (spikeKey pairName dir n) = None \<and> \<not> js_ge spread (Num (3 / 10))
      \<longrightarrow> trackPersistence pairName dir spread blk n now s = s)
   \<and> (arbSpikeTracker t (pairName @ ''_'' @ dir) = None \<and> \<not> js_ge spread (Num (1 / 2))
      \<longrightarrow> arbTrackPersistence pairName dir spread blk t = t)
   \<and> (spikeTracker s = Map.empty \<and> (\<forall>ob \<in> set obs. \<not> aboveThreshold ob)
      \<longrightarrow> observeAll obs s = s)
   \<and> (arbSpikeTracker t = Map.empty
        \<and> (\<forall>ob \<in> set aobs. \<not> js_ge (fst (snd (snd ob))) (Num (1 / 2)))
      \<longrightarrow> arbObserveAll aobs t = t)"
proof (intro conjI impI)
  assume "spikeTracker s (spikeKey pairName dir n) = None \<and> \<not> js_ge spread (Num (3 / 10))"
  then show "trackPersistence pairName dir spread blk n now s = s"
    by (simp add: trackPersistence_def Let_def fun_upd_idem)
next
  assume "arbSpikeTracker t (pairName @ ''_'' @ dir) = None \<and> \<not> js_ge spread (Num (1 / 2))"
  then show "arbTrackPersistence pairName dir spread blk t = t"
    by (simp add: arb_idle_below)
next
  assume "spikeTracker s = Map.empty \<and> (\<forall>ob \<in> set obs. \<not> aboveThreshold ob)"
  then show "observeAll obs s = s"
    by (simp add: observeAll_idle)
next
  assume "arbSpikeTracker t = Map.empty
      \<and> (\<forall>ob \<in> set aobs. \<not> js_ge (fst (snd (snd ob))) (Num (1 / 2)))"
  then show "arbObserveAll aobs t = t"
    by (simp add: arbObserveAll_idle)
qed

theorem trackPersistence_idle_noop_witness:
  "spikeTracker emptyLogger (spikeKey ''WETH/USDC'' ''AB'' 100) = None
   \<and> \<not> js_ge (Num (1 / 10)) (Num (3 / 10))
   \<and> trackPersistence ''WETH/USDC'' ''AB'' (Num (1 / 10)) 7 100 7000 emptyLogger = emptyLogger
   \<and> trackPersistence ''WETH/USDC'' ''AB'' NaN 7 100 7000 emptyLogger = emptyLogger
   \<and> observeAll [sample (1 / 10) 1, sample (- 2) 2, sample (29 / 100) 3] emptyLogger
       = emptyLogger"
  using trackPersistence_idle_noop [of emptyLogger "''WETH/USDC''" "''AB''" 100
      "Num (1 / 10)" 7 7000 _ "[sample (1 / 10) 1, sample (- 2) 2, sample (29 / 100) 3]" "[]"]
    trackPersistence_idle_noop [of emptyLogger "''WETH/USDC''" "''AB''" 100
      NaN 7 7000 _ "[]" "[]"]
  by (simp add: emptyLogger_def aboveThreshold_def sample_def)

text \<open>
  C1. Take any stream of calls, for any keys, that starts with the key \<open>k\<close> idle and
  in which the calls for \<open>k\<close> are a non-empty run \<open>first # rest\<close> of spreads at or above
  0.3, and let the next call \<open>c\<close> for \<open>k\<close> be below the threshold. Then the run itself
  writes no event for \<open>k\<close>; the call \<open>c\<close> writes exactly one event if the run has at
  least two observations and none otherwise; the event carries the run length as
  duration and as maximum a spread \<open>m\<close> of the run that every spread of the run is
  at most; and after \<open>c\<close> the entry for \<open>k\<close> is gone in either case, which is the
  idle state the next run starts from.
\<close>

theorem trackPersistence_run:
  assumes idle: "spikeTracker s k = None"
    and run: "filter (\<lambda>ob. obsKey ob = k) obs = first # rest"
    and above: "\<forall>ob \<in> set (first # rest). aboveThreshold ob"
    and closing: "obsKey c = k" "\<not> aboveThreshold c"
  shows "\<exists>m. m \<in> obsSpread ` set (first # rest)
           \<and> (\<forall>ob \<in> set (first # rest). js_ge m (obsSpread ob))
           \<and> filter (\<lambda>ev. evKey ev = k) (console (observeAll obs s))
               = filter (\<lambda>ev. evKey ev = k) (console s)
           \<and> console (observeAll (obs @ [c]) s) = console (observeAll obs s) @
               (if 2 \<le> length (first # rest)
                then [\<lparr>evPair = obsPair c, evDirection = obsDirection c,
                       duration = length (first # rest), evMaxSpread = m,
                       evNotional = obsNotional c,
                       wallDuration = toFixedScaled (of_int (obsNow c - obsNow first) / 1000) 0\<rparr>]
                else [])
           \<and> spikeTracker (observeAll (obs @ [c]) s) k = None"
proof -
  have ab: "\<forall>ob \<in> set obs. obsKey ob = k \<longrightarrow> aboveThreshold ob"
  proof (intro ballI impI)
    fix ob assume "ob \<in> set obs" and "obsKey ob = k"
    then have "ob \<in> set (filter (\<lambda>ob. obsKey ob = k) obs)" by simp
    with run above show "aboveThreshold ob" by auto
  qed
  let ?s1 = "observeAll obs s"
  from run_invariant [OF idle ab] run obtain e where
    con: "filter (\<lambda>ev. evKey ev = k) (console ?s1) = filter (\<lambda>ev. evKey ev = k) (console s)"
    and e: "spikeTracker ?s1 k = Some e" "count e = Suc (length rest)"
      "startTime e = obsNow first"
      "maxSpread e \<in> obsSpread ` set (first # rest)"
      "\<forall>ob \<in> set (first # rest). js_ge (maxSpread e) (obsSpread ob)"
    by auto
  have step: "observeAll (obs @ [c]) s = observe ?s1 c"
    by (simp add: observeAll_def)
  have fin: "spikeTracker (observe ?s1 c) k = None"
    using closing by (rule observe_below)
  have out: "console (observe ?s1 c) = console ?s1 @
      (if 2 \<le> length (first # rest)
       then [\<lparr>evPair = obsPair c, evDirection = obsDirection c,
              duration = length (first # rest), evMaxSpread = maxSpread e,
              evNotional = obsNotional c,
              wallDuration = toFixedScaled (of_int (obsNow c - obsNow first) / 1000) 0\<rparr>]
       else [])"
    using observe_below(2) [OF closing, of ?s1] e by simp
  from e(4,5) con out fin show ?thesis
    unfolding step by (intro exI [of _ "maxSpread e"]) simp
qed


lemma sample_key: "obsKey (sample x blk) = spikeKey ''WETH/USDC'' ''AB'' 100"
  by (simp add: obsKey_def sample_def)

lemma sample_above: "aboveThreshold (sample x blk) = (3 / 10 \<le> x)"
  by (simp add: aboveThreshold_def sample_def)

lemma sample_run_three:
  "console (observeAll [sample (2 / 5) 1, sample (1 / 2) 2, sample (1 / 5) 3] emptyLogger) =
   [\<lparr>evPair = ''WETH/USDC'', evDirection = ''AB'', duration = 2, evMaxSpread = Num (1 / 2),
     evNotional = 100, wallDuration = 2\<rparr>]"
  by (simp add: observeAll_def observe_def trackPersistence_def sample_def emptyLogger_def
      Let_def toFixedScaled_def floor_eq_iff)

lemma sample_run_three_tracker:
  "spikeTracker (observeAll [sample (2 / 5) 1, sample (1 / 2) 2, sample (1 / 5) 3] emptyLogger)
     = Map.empty"
  by (simp add: observeAll_def observe_def trackPersistence_def sample_def emptyLogger_def
      Let_def)

lemma sample_run_two:
  "console (observeAll [sample (2 / 5) 1, sample (1 / 10) 2] emptyLogger) = []"
  "spikeTracker (observeAll [sample (2 / 5) 1, sample (1 / 10) 2] emptyLogger) = Map.empty"
  by (simp_all add: observeAll_def observe_def trackPersistence_def sample_def emptyLogger_def
      Let_def)

theorem trackPersistence_run_witness:
  "console (observeAll [sample (2 / 5) 1, sample (1 / 2) 2, sample (1 / 5) 3] emptyLogger) =
     [\<lparr>evPair = ''WETH/USDC'', evDirection = ''AB'', duration = 2, evMaxSpread = Num (1 / 2),
       evNotional = 100, wallDuration = 2\<rparr>]
   \<and> spikeTracker (observeAll [sample (2 / 5) 1, sample (1 / 2) 2, sample (1 / 5) 3] emptyLogger)
       (spikeKey ''WETH/USDC'' ''AB'' 100) = None
   \<and> console (observeAll [sample (2 / 5) 1, sample (1 / 10) 2] emptyLogger) = []
   \<and> spikeTracker (observeAll [sample (2 / 5) 1, sample (1 / 10) 2] emptyLogger)
       (spikeKey ''WETH/USDC'' ''AB'' 100) = None"
proof -
  let ?k = "spikeKey ''WETH/USDC'' ''AB'' 100"
  have h1: "spikeTracker emptyLogger ?k = None"
    by (simp add: emptyLogger_def)
  have h2: "filter (\<lambda>ob. obsKey ob = ?k) [sample (2 / 5) 1, sample (1 / 2) 2]
      = sample (2 / 5) 1 # [sample (1 / 2) 2]"
    by (simp add: sample_key)
  have h3: "\<forall>ob \<in> set (sample (2 / 5) 1 # [sample (1 / 2) 2]). aboveThreshold ob"
    by (simp add: sample_above)
  have h4: "obsKey (sample (1 / 5) 3) = ?k"
    by (rule sample_key)
  have h5: "\<not> aboveThreshold (sample (1 / 5) 3)"
    by (simp add: sample_above)
  have g2: "filter (\<lambda>ob. obsKey ob = ?k) [sample (2 / 5) 1] = sample (2 / 5) 1 # []"
    by (simp add: sample_key)
  have g3: "\<forall>ob \<in> set (sample (2 / 5) 1 # []). aboveThreshold ob"
    by (simp add: sample_above)
  have g4: "obsKey (sample (1 / 10) 2) = ?k"
    by (rule sample_key)
  have g5: "\<not> aboveThreshold (sample (1 / 10) 2)"
    by (simp add: sample_above)
  have c1: "console (observeAll [sample (2 / 5) 1, sample (1 / 2) 2, sample (1 / 5) 3]
      emptyLogger) =
     [\<lparr>evPair = ''WETH/USDC'', evDirection = ''AB'', duration = 2, evMaxSpread = Num (1 / 2),
       evNotional = 100, wallDuration = 2\<rparr>]"
    by (rule sample_run_three)
  have c2: "spikeTracker (observeAll [sample (2 / 5) 1, sample (1 / 2) 2, sample (1 / 5) 3]
      emptyLogger) ?k = None"
    by (simp only: sample_run_three_tracker)
  have c3: "console (observeAll [sample (2 / 5) 1, sample (1 / 10) 2] emptyLogger) = []"
    by (rule sample_run_two)
  have c4: "spikeTracker (observeAll [sample (2 / 5) 1, sample (1 / 10) 2] emptyLogger) ?k
      = None"
    by (simp only: sample_run_two)
  from trackPersistence_run [OF h1 h2 h3 h4 h5] trackPersistence_run [OF h1 g2 g3 g4 g5]
    c1 c2 c3 c4
  show ?thesis by blast
qed

section \<open>Statistics of the Arbitrum logger\<close>

lemma js_gt_trans: "js_gt a b \<Longrightarrow> js_gt b c \<Longrightarrow> js_gt a c"
  by (cases a; cases b; cases c) simp_all

lemma js_gt_imp_ge: "js_gt a b \<Longrightarrow> js_ge a b"
  by (cases a; cases b) simp_all

lemma js_gt_asym: "js_gt a b \<Longrightarrow> \<not> js_gt b a"
  by (cases a; cases b) simp_all

lemma arbUpdateStats_best:
  "bestSpread (arbUpdateStats st trip) =
     (if js_gt (spreadPct trip) (bestSpread st) then spreadPct trip else bestSpread st)"
  by (simp add: arbUpdateStats_def Let_def)

lemma arbTrackPersistence_stats:
  assumes "arbStats s p = Some st"
  shows "\<exists>st'. arbStats (arbTrackPersistence nm d x blk s) p = Some st'
           \<and> bestSpread st' = bestSpread st"
  using assms
  by (auto simp: arbTrackPersistence_def arbInitStats_def Let_def split: option.splits)

lemma arbPollTrips_best:
  assumes "arbStats s p = Some st"
  shows "\<exists>st'. arbStats (arbPollTrips nm blk trips s) p = Some st'
           \<and> (bestSpread st' = bestSpread st
              \<or> nm = p \<and> bestSpread st' \<in> (\<lambda>t. spreadPct (fst t)) ` set trips
                \<and> js_gt (bestSpread st') (bestSpread st))"
  using assms
proof (induction trips arbitrary: s st)
  case Nil
  then show ?case by simp
next
  case (Cons t trips)
  obtain trip appendOk where t: "t = (trip, appendOk)" by (cases t)
  show ?case
  proof (cases "arbStats s nm")
    case None
    with Cons.prems t show ?thesis by simp
  next
    case (Some stn)
    define s0 where "s0 = s\<lparr>arbStats := (arbStats s)(nm \<mapsto> arbUpdateStats stn trip)\<rparr>"
    define s1 where "s1 = arbTrackPersistence nm (direction trip) (spreadPct trip) blk s0"
    define s2 where "s2 = s1\<lparr>arbOutFile := arbOutFile s1 @ [(blk, nm, trip)]\<rparr>"
    have res: "arbPollTrips nm blk (t # trips) s = (if appendOk then arbPollTrips nm blk trips s2 else s1)"
      by (simp add: t Some s0_def s1_def s2_def Let_def)
    obtain st0 where st0: "arbStats s0 p = Some st0"
      and b0: "bestSpread st0 = bestSpread st
               \<or> nm = p \<and> bestSpread st0 = spreadPct trip \<and> js_gt (spreadPct trip) (bestSpread st)"
    proof (cases "nm = p")
      case True
      with Some Cons.prems have "stn = st" by simp
      with True that [of "arbUpdateStats st trip"] show ?thesis
        by (simp add: s0_def arbUpdateStats_best)
    next
      case False
      with that [of st] Cons.prems show ?thesis by (simp add: s0_def)
    qed
    from arbTrackPersistence_stats [OF st0, of nm "direction trip" "spreadPct trip" blk]
    obtain st1 where st1: "arbStats s1 p = Some st1" and b1: "bestSpread st1 = bestSpread st0"
      by (auto simp: s1_def)
    show ?thesis
    proof (cases appendOk)
      case False
      with res st1 b1 b0 t show ?thesis by auto
    next
      case True
      have "arbStats s2 p = Some st1" using st1 by (simp add: s2_def)
      from Cons.IH [OF this] obtain st' where
        st': "arbStats (arbPollTrips nm blk trips s2) p = Some st'"
        and b': "bestSpread st' = bestSpread st1
                 \<or> nm = p \<and> bestSpread st' \<in> (\<lambda>t. spreadPct (fst t)) ` set trips
                   \<and> js_gt (bestSpread st') (bestSpread st1)"
        by blast
      from b' b0 b1 have "bestSpread st' = bestSpread st
          \<or> nm = p \<and> bestSpread st' \<in> (\<lambda>t. spreadPct (fst t)) ` set (t # trips)
            \<and> js_gt (bestSpread st') (bestSpread st)"
        using js_gt_trans [of "bestSpread st'" "spreadPct trip" "bestSpread st"]
        by (auto simp: t)
      with res True st' show ?thesis by auto
    qed
  qed
qed

lemma pairs_best:
  assumes "arbStats s p = Some st"
  shows "\<exists>st'. arbStats (foldl (\<lambda>s' pr. arbPollTrips (fst pr) blk (snd pr) s') s prs) p = Some st'
           \<and> (bestSpread st' = bestSpread st
              \<or> bestSpread st' \<in> set (cycleSpreads p prs) \<and> js_gt (bestSpread st') (bestSpread st))"
  using assms
proof (induction prs arbitrary: s st)
  case Nil
  then show ?case by simp
next
  case (Cons pr prs)
  from arbPollTrips_best [OF Cons.prems, of "fst pr" blk "snd pr"] obtain st1 where
    st1: "arbStats (arbPollTrips (fst pr) blk (snd pr) s) p = Some st1"
    and b1: "bestSpread st1 = bestSpread st
             \<or> fst pr = p \<and> bestSpread st1 \<in> (\<lambda>t. spreadPct (fst t)) ` set (snd pr)
               \<and> js_gt (bestSpread st1) (bestSpread st)"
    by blast
  from Cons.IH [OF st1] obtain st' where
    st': "arbStats (foldl (\<lambda>s' pr. arbPollTrips (fst pr) blk (snd pr) s')
            (arbPollTrips (fst pr) blk (snd pr) s) prs) p = Some st'"
    and b': "bestSpread st' = bestSpread st1
             \<or> bestSpread st' \<in> set (cycleSpreads p prs) \<and> js_gt (bestSpread st') (bestSpread st1)"
    by blast
  have cs: "set (cycleSpreads p (pr # prs)) =
      (if fst pr = p then (\<lambda>t. spreadPct (fst t)) ` set (snd pr) else {})
        \<union> set (cycleSpreads p prs)"
    by (simp add: cycleSpreads_def)
  have "bestSpread st' = bestSpread st
      \<or> bestSpread st' \<in> set (cycleSpreads p (pr # prs)) \<and> js_gt (bestSpread st') (bestSpread st)"
  proof (cases "bestSpread st1 = bestSpread st")
    case True
    with b' show ?thesis by (auto simp: cs)
  next
    case False
    with b1 have new1: "fst pr = p" "bestSpread st1 \<in> (\<lambda>t. spreadPct (fst t)) ` set (snd pr)"
      "js_gt (bestSpread st1) (bestSpread st)" by simp_all
    show ?thesis
    proof (cases "bestSpread st' = bestSpread st1")
      case True
      with new1 show ?thesis by (simp add: cs)
    next
      case False
      with b' have "bestSpread st' \<in> set (cycleSpreads p prs)"
        "js_gt (bestSpread st') (bestSpread st1)" by simp_all
      with new1(3) js_gt_trans show ?thesis by (auto simp: cs)
    qed
  qed
  with st' show ?case by auto
qed

lemma arbRun_best:
  assumes "arbStats s p = Some st"
  shows "\<exists>st'. arbStats (arbRun cycles s) p = Some st'
           \<and> (bestSpread st' = bestSpread st
              \<or> bestSpread st' \<in> set (spreadsOf p cycles) \<and> js_gt (bestSpread st') (bestSpread st))"
  using assms
proof (induction cycles arbitrary: s st)
  case Nil
  then show ?case by (simp add: arbRun_def)
next
  case (Cons cyc cycles)
  from pairs_best [OF Cons.prems, of "fst cyc" "snd cyc"] obtain st1 where
    st1: "arbStats (arbPollCycle s cyc) p = Some st1"
    and b1: "bestSpread st1 = bestSpread st
             \<or> bestSpread st1 \<in> set (cycleSpreads p (snd cyc))
               \<and> js_gt (bestSpread st1) (bestSpread st)"
    by (auto simp: arbPollCycle_def)
  from Cons.IH [OF st1] obtain st' where
    st': "arbStats (arbRun cycles (arbPollCycle s cyc)) p = Some st'"
    and b': "bestSpread st' = bestSpread st1
             \<or> bestSpread st' \<in> set (spreadsOf p cycles) \<and> js_gt (bestSpread st') (bestSpread st1)"
    by blast
  have cs: "set (spreadsOf p (cyc # cycles)) =
      set (cycleSpreads p (snd cyc)) \<union> set (spreadsOf p cycles)"
    by (simp add: spreadsOf_def)
  have "bestSpread st' = bestSpread st
      \<or> bestSpread st' \<in> set (spreadsOf p (cyc # cycles)) \<and> js_gt (bestSpread st') (bestSpread st)"
  proof (cases "bestSpread st1 = bestSpread st")
    case True
    with b' show ?thesis by (auto simp: cs)
  next
    case False
    with b1 have new1: "bestSpread st1 \<in> set (cycleSpreads p (snd cyc))"
      "js_gt (bestSpread st1) (bestSpread st)" by simp_all
    show ?thesis
    proof (cases "bestSpread st' = bestSpread st1")
      case True
      with new1 show ?thesis by (simp add: cs)
    next
      case False
      with b' have "bestSpread st' \<in> set (spreadsOf p cycles)"
        "js_gt (bestSpread st') (bestSpread st1)" by simp_all
      with new1(2) js_gt_trans show ?thesis by (auto simp: cs)
    qed
  qed
  with st' show ?case by (auto simp: arbRun_def)
qed

lemma arbStart_stats:
  "p \<in> set names \<Longrightarrow>
   arbStats (arbStart names) p =
     Some \<lparr>checks = 0, spikes05 = 0, spikes1 = 0, bestSpread = Num 0, persistent2 = 0,
           totalNetPct = Num 0\<rparr>"
proof (induction names rule: rev_induct)
  case Nil
  then show ?case by simp
next
  case (snoc nm names)
  then show ?case by (cases "nm = p") (auto simp: arbStart_def arbInitStats_def)
qed


text \<open>
  C10. The Arbitrum logger's \<^verbatim>\<open>initStats\<close> sets \<^verbatim>\<open>bestSpread\<close> to 0 (the
  chain-agnostic logger starts from -999) and the loop replaces it only by a
  spread that is strictly greater than the value it holds. So after any run, the best
  spread of an active pair is either still 0 or a spread the pair showed that is
  greater than 0: it is never below 0, and a pair all of whose spreads are negative
  reports 0.
\<close>

theorem arb_bestSpread_nonneg:
  assumes "p \<in> set names"
  shows "\<exists>st. arbStats (arbRun cycles (arbStart names)) p = Some st
          \<and> (bestSpread st = Num 0
             \<or> bestSpread st \<in> set (spreadsOf p cycles) \<and> js_gt (bestSpread st) (Num 0))
          \<and> js_ge (bestSpread st) (Num 0)
          \<and> ((\<forall>x \<in> set (spreadsOf p cycles). js_gt (Num 0) x) \<longrightarrow> bestSpread st = Num 0)"
proof -
  from arbRun_best [OF arbStart_stats [OF assms], of cycles] obtain st where
    st: "arbStats (arbRun cycles (arbStart names)) p = Some st"
    and b: "bestSpread st = Num 0
            \<or> bestSpread st \<in> set (spreadsOf p cycles) \<and> js_gt (bestSpread st) (Num 0)"
    by auto
  from b have ge: "js_ge (bestSpread st) (Num 0)"
    using js_gt_imp_ge [of "bestSpread st" "Num 0"] by auto
  from b have z: "(\<forall>x \<in> set (spreadsOf p cycles). js_gt (Num 0) x) \<longrightarrow> bestSpread st = Num 0"
    using js_gt_asym [of "bestSpread st" "Num 0"] by auto
  from st b ge z show ?thesis by blast
qed


theorem arb_bestSpread_nonneg_witness:
  "spreadsOf ''WETH/ARB'' losingRun = [Num (- (3 / 10)), Num (- (1 / 4)), Num (- (1 / 5))]
   \<and> map_option bestSpread
        (arbStats (arbRun losingRun (arbStart [''WETH/ARB''])) ''WETH/ARB'') = Some (Num 0)"
proof -
  have sp: "spreadsOf ''WETH/ARB'' losingRun
      = [Num (- (3 / 10)), Num (- (1 / 4)), Num (- (1 / 5))]"
    by code_simp
  have mem: "''WETH/ARB'' \<in> set [''WETH/ARB'']"
    by simp
  from arb_bestSpread_nonneg [OF mem, of losingRun] sp
  show ?thesis by auto
qed

section \<open>Deduplication of alerts\<close>

lemma shouldLog_iff:
  "(\<not> shouldLog now d ll) =
     (\<exists>prev. ll (logKey d) = Some prev \<and> lastDirection prev = Some (buyDex d)
        \<and> (now - ts prev < DEDUP_COOLDOWN_MS
           \<or> js_gt (binary64 (3 / 100))
                (js_abs (js_sub64 (resolveSpread d) (lastSpread prev)))))"
  by (auto simp: shouldLog_def DEDUP_SPREAD_DELTA_def split: option.splits)

lemma logOpportunity_emitted:
  "fst (logOpportunity env d s) =
     (shouldLog (checkNow env) d (lastLogged s)
      \<and> (case probe env of
            Missing \<Rightarrow> True
          | Size bytes \<Rightarrow> bytes \<le> 10 * 1024 * 1024
          | ProbeThrows \<Rightarrow> False))"
  by (simp add: logOpportunity_def writeEntry_def MAX_FILE_SIZE_MB_def not_less
      split: fileProbe.splits)

lemma logOpportunity_counter:
  "opportunitiesSuppressed (snd (logOpportunity env d s)) =
     opportunitiesSuppressed s + (if shouldLog (checkNow env) d (lastLogged s) then 0 else 1)"
  by (simp add: logOpportunity_def writeEntry_def split: fileProbe.splits)

lemma logOpportunity_entry:
  "lastLogged (snd (logOpportunity env d s)) =
     (if fst (logOpportunity env d s)
      then (lastLogged s)(logKey d \<mapsto>
             \<lparr>lastSpread = resolveSpread d,
              lastDirection = (if buyDex d = [] then None else Some (buyDex d)),
              ts = updateNow env\<rparr>)
      else lastLogged s)"
  by (simp add: logOpportunity_def writeEntry_def updateLastLogged_def split: fileProbe.splits)

lemma logOpportunity_appended:
  "appended (snd (logOpportunity env d s)) =
     (if fst (logOpportunity env d s) then appended s @ [d] else appended s)"
  by (simp add: logOpportunity_def writeEntry_def split: fileProbe.splits)

lemma logOpportunity_next:
  assumes "fst (logOpportunity e1 d1 s)" and "probe e2 = Missing"
    and "buyDex d1 \<noteq> []" and "logKey d2 = logKey d1" and "buyDex d2 = buyDex d1"
  shows "fst (logOpportunity e2 d2 (snd (logOpportunity e1 d1 s))) =
      (DEDUP_COOLDOWN_MS \<le> checkNow e2 - updateNow e1
       \<and> \<not> js_gt (binary64 (3 / 100))
             (js_abs (js_sub64 (resolveSpread d2) (resolveSpread d1))))"
proof -
  have ll: "lastLogged (snd (logOpportunity e1 d1 s)) (logKey d2) =
      Some \<lparr>lastSpread = resolveSpread d1, lastDirection = Some (buyDex d1), ts = updateNow e1\<rparr>"
    using assms(1,3,4) by (simp add: logOpportunity_entry)
  show ?thesis
    using assms(2,5) ll
    by (auto simp: logOpportunity_emitted shouldLog_def DEDUP_SPREAD_DELTA_def)
qed

text \<open>
  C3, as claimed, fails. The two tests of \<^verbatim>\<open>shouldLog\<close> are applied one after the
  other, each suppressing on its own: an alert is suppressed when it comes inside the
  cooldown \<^emph>\<open>or\<close> when its spread has moved by less than the delta. So an alert that
  arrives 20 seconds after the logged one with an unchanged spread is suppressed, not
  emitted, and an alert inside the window is suppressed even when its spread has
  moved by a full point.
\<close>

theorem logOpportunity_after_cooldown_counterexample:
  "fst (logOpportunity (envAt 0) (alert (1 / 2)) freshLogger)
   \<and> \<not> fst (logOpportunity (envAt 20000) (alert (1 / 2))
          (snd (logOpportunity (envAt 0) (alert (1 / 2)) freshLogger)))
   \<and> opportunitiesSuppressed (snd (logOpportunity (envAt 20000) (alert (1 / 2))
          (snd (logOpportunity (envAt 0) (alert (1 / 2)) freshLogger)))) = 1
   \<and> \<not> fst (logOpportunity (envAt 5000) (alert (3 / 2))
          (snd (logOpportunity (envAt 0) (alert (1 / 2)) freshLogger)))"
  by code_simp

text \<open>
  C3, amended. The prior alert of an alert is the entry its pair has in
  \<^verbatim>\<open>lastLogged\<close>: every alert that is logged overwrites the entry of its pair with its
  own spread, buy-side venue and time, and no other call changes the table. An alert
  is suppressed if and only if its pair has a prior alert with the same buy-side
  venue, and either that alert is younger than the cooldown or the binary64
  difference of the two spreads is, in magnitude, below the binary64 number \<^verbatim>\<open>0.03\<close>.
  A suppressed alert returns \<^verbatim>\<open>false\<close> and counts as suppressed; an alert is logged
  exactly when it is not suppressed and the log file is absent or within the size
  limit. In particular, after an alert that was logged from any state, the next alert
  for the same pair and buy-side venue (log file writable) is emitted exactly when it
  comes at or after the cooldown and its spread has moved by at least the delta.
\<close>

theorem logOpportunity_dedup:
  "(\<not> shouldLog now d ll) =
     (\<exists>prev. ll (logKey d) = Some prev \<and> lastDirection prev = Some (buyDex d)
        \<and> (now - ts prev < DEDUP_COOLDOWN_MS
           \<or> js_gt (binary64 (3 / 100))
                (js_abs (js_sub64 (resolveSpread d) (lastSpread prev)))))
   \<and> fst (logOpportunity env d s) =
       (shouldLog (checkNow env) d (lastLogged s)
        \<and> (case probe env of
              Missing \<Rightarrow> True
            | Size bytes \<Rightarrow> bytes \<le> 10 * 1024 * 1024
            | ProbeThrows \<Rightarrow> False))
   \<and> opportunitiesSuppressed (snd (logOpportunity env d s)) =
       opportunitiesSuppressed s + (if shouldLog (checkNow env) d (lastLogged s) then 0 else 1)
   \<and> lastLogged (snd (logOpportunity env d s)) =
       (if fst (logOpportunity env d s)
        then (lastLogged s)(logKey d \<mapsto>
               \<lparr>lastSpread = resolveSpread d,
                lastDirection = (if buyDex d = [] then None else Some (buyDex d)),
                ts = updateNow env\<rparr>)
        else lastLogged s)
   \<and> appended (snd (logOpportunity env d s)) =
       (if fst (logOpportunity env d s) then appended s @ [d] else appended s)
   \<and> (fst (logOpportunity e1 d1 s) \<and> probe e2 = Missing
        \<and> buyDex d1 \<noteq> [] \<and> logKey d2 = logKey d1 \<and> buyDex d2 = buyDex d1 \<longrightarrow>
        fst (logOpportunity e2 d2 (snd (logOpportunity e1 d1 s))) =
            (DEDUP_COOLDOWN_MS \<le> checkNow e2 - updateNow e1
             \<and> \<not> js_gt (binary64 (3 / 100))
                   (js_abs (js_sub64 (resolveSpread d2) (resolveSpread d1)))))"
proof (intro conjI impI)
  show "(\<not> shouldLog now d ll) =
     (\<exists>prev. ll (logKey d) = Some prev \<and> lastDirection prev = Some (buyDex d)
        \<and> (now - ts prev < DEDUP_COOLDOWN_MS
           \<or> js_gt (binary64 (3 / 100))
                (js_abs (js_sub64 (resolveSpread d) (lastSpread prev)))))"
    by (rule shouldLog_iff)
next
  show "fst (logOpportunity env d s) =
       (shouldLog (checkNow env) d (lastLogged s)
        \<and> (case probe env of
              Missing \<Rightarrow> True
            | Size bytes \<Rightarrow> bytes \<le> 10 * 1024 * 1024
            | ProbeThrows \<Rightarrow> False))"
    by (rule logOpportunity_emitted)
next
  show "opportunitiesSuppressed (snd (logOpportunity env d s)) =
       opportunitiesSuppressed s + (if shouldLog (checkNow env) d (lastLogged s) then 0 else 1)"
    by (rule logOpportunity_counter)
next
  show "lastLogged (snd (logOpportunity env d s)) =
       (if fst (logOpportunity env d s)
        then (lastLogged s)(logKey d \<mapsto>
               \<lparr>lastSpread = resolveSpread d,
                lastDirection = (if buyDex d = [] then None else Some (buyDex d)),
                ts = updateNow env\<rparr>)
        else lastLogged s)"
    by (rule logOpportunity_entry)
next
  show "appended (snd (logOpportunity env d s)) =
       (if fst (logOpportunity env d s) then appended s @ [d] else appended s)"
    by (rule logOpportunity_appended)
next
  assume h: "fst (logOpportunity e1 d1 s) \<and> probe e2 = Missing
        \<and> buyDex d1 \<noteq> [] \<and> logKey d2 = logKey d1 \<and> buyDex d2 = buyDex d1"
  then show "fst (logOpportunity e2 d2 (snd (logOpportunity e1 d1 s))) =
      (DEDUP_COOLDOWN_MS \<le> checkNow e2 - updateNow e1
       \<and> \<not> js_gt (binary64 (3 / 100))
             (js_abs (js_sub64 (resolveSpread d2) (resolveSpread d1))))"
    by (intro logOpportunity_next) simp_all
qed

text \<open>
  A run of four alerts of one pair and buy-side venue from a fresh logger: spread
  0.50 at time 0 is logged; 0.51 after 5 seconds is suppressed (inside the cooldown);
  0.60 after 20 seconds is logged, the prior alert still being the first one; 0.62
  after 35 seconds is suppressed, its prior alert now being the third one, from which
  it differs by 0.02. And after a logged 0.26, an alert of 0.29 that comes 20 seconds
  later is suppressed: the binary64 difference of the two is \<open>0.02999999999999997\<dots>\<close>,
  below \<^verbatim>\<open>0.03\<close>.
\<close>

theorem logOpportunity_dedup_witness:
  "fst (logOpportunity (envAt 0) (alert (1 / 2)) freshLogger)
   \<and> probe (envAt 5000) = Missing \<and> buyDex (alert (1 / 2)) \<noteq> []
   \<and> logKey (alert (51 / 100)) = logKey (alert (1 / 2))
   \<and> buyDex (alert (51 / 100)) = buyDex (alert (1 / 2))
   \<and> \<not> fst (logOpportunity (envAt 5000) (alert (51 / 100))
          (snd (logOpportunity (envAt 0) (alert (1 / 2)) freshLogger)))
   \<and> fst (logOpportunity (envAt 20000) (alert (3 / 5))
          (snd (logOpportunity (envAt 5000) (alert (51 / 100))
            (snd (logOpportunity (envAt 0) (alert (1 / 2)) freshLogger)))))
   \<and> \<not> fst (logOpportunity (envAt 35000) (alert (31 / 50))
          (snd (logOpportunity (envAt 20000) (alert (3 / 5))
            (snd (logOpportunity (envAt 5000) (alert (51 / 100))
              (snd (logOpportunity (envAt 0) (alert (1 / 2)) freshLogger)))))))
   \<and> fst (logOpportunity (envAt 0) (alert (13 / 50)) freshLogger)
   \<and> \<not> fst (logOpportunity (envAt 20000) (alert (29 / 100))
          (snd (logOpportunity (envAt 0) (alert (13 / 50)) freshLogger)))"
proof -
  let ?s1 = "snd (logOpportunity (envAt 0) (alert (1 / 2)) freshLogger)"
  let ?s2 = "snd (logOpportunity (envAt 5000) (alert (51 / 100)) ?s1)"
  let ?s3 = "snd (logOpportunity (envAt 20000) (alert (3 / 5)) ?s2)"
  have e1: "fst (logOpportunity (envAt 0) (alert (1 / 2)) freshLogger)"
    by code_simp
  have pr: "probe (envAt 5000) = Missing" "probe (envAt 20000) = Missing"
      "probe (envAt 35000) = Missing"
    by (simp_all add: envAt_def)
  have bd: "buyDex (alert (1 / 2)) \<noteq> []" "buyDex (alert (3 / 5)) \<noteq> []"
      "buyDex (alert (13 / 50)) \<noteq> []"
    by (simp_all add: alert_def)
  have ky: "logKey (alert x) = logKey (alert y)" "buyDex (alert x) = buyDex (alert y)" for x y
    by (simp_all add: alert_def logKey_def)
  have tm: "checkNow (envAt t) = t" "updateNow (envAt t) = t" for t
    by (simp_all add: envAt_def)
  have e2: "\<not> fst (logOpportunity (envAt 5000) (alert (51 / 100)) ?s1)"
    using logOpportunity_dedup [where s = freshLogger and ?e1.0 = "envAt 0" and ?d1.0 = "alert (1 / 2)"
        and ?e2.0 = "envAt 5000" and ?d2.0 = "alert (51 / 100)"] e1 pr bd ky
    by (simp add: tm DEDUP_COOLDOWN_MS_def)
  have e3: "fst (logOpportunity (envAt 20000) (alert (3 / 5)) ?s2)"
    by code_simp
  have d4: "js_gt (binary64 (3 / 100))
      (js_abs (js_sub64 (resolveSpread (alert (31 / 50))) (resolveSpread (alert (3 / 5)))))"
    by code_simp
  have e4: "\<not> fst (logOpportunity (envAt 35000) (alert (31 / 50)) ?s3)"
    using logOpportunity_dedup [where s = ?s2 and ?e1.0 = "envAt 20000" and ?d1.0 = "alert (3 / 5)"
        and ?e2.0 = "envAt 35000" and ?d2.0 = "alert (31 / 50)"] e3 pr bd ky d4
    by simp
  have e5: "fst (logOpportunity (envAt 0) (alert (13 / 50)) freshLogger)"
    by code_simp
  have d6: "js_gt (binary64 (3 / 100))
      (js_abs (js_sub64 (resolveSpread (alert (29 / 100))) (resolveSpread (alert (13 / 50)))))"
    by code_simp
  have e6: "\<not> fst (logOpportunity (envAt 20000) (alert (29 / 100))
          (snd (logOpportunity (envAt 0) (alert (13 / 50)) freshLogger)))"
    using logOpportunity_dedup [where s = freshLogger and ?e1.0 = "envAt 0" and ?d1.0 = "alert (13 / 50)"
        and ?e2.0 = "envAt 20000" and ?d2.0 = "alert (29 / 100)"] e5 pr bd ky d6
    by simp
  from e1 pr(1) bd(1) ky [of "51 / 100" "1 / 2"] e2 e3 e4 e5 e6 show ?thesis by blast
qed

section \<open>Overlapping cycles\<close>

text \<open>
  C8 on the code. Block poller: two ticks fire before the first block number has
  arrived; the block numbers 100 and 101 then arrive, and both invocations are
  checking pairs at once. Or the second invocation gets the old block 100, returns
  early through \<^verbatim>\<open>finally\<close> and clears the flag of the first, so that a third tick,
  fired while the first cycle's checks are outstanding, is not skipped and starts a
  second cycle. Spread logger: two firings of the interval, two cycles executing.
\<close>

theorem pollBlock_cycles_overlap:
  "cyclesExecuting (foldl pollBlock monitorStart
      [Tick, Tick, BlockNumber 0 100, BlockNumber 1 101]) = [0, 1]
   \<and> cyclesExecuting (foldl pollBlock monitorStart
      [Tick, Tick, BlockNumber 0 100, BlockNumber 1 100, Tick, BlockNumber 2 101]) = [0, 2]
   \<and> pollsExecuting (foldl poll spreadPollerStart [IntervalFires, IntervalFires]) = [0, 1]"
  by code_simp

end
